theory Spec2Isabelle
  imports Complex_Main
begin

section \<open>SafeRide Guardian: the detection and escalation pipeline of App.tsx\<close>

text \<open>
  The embedding follows \<^verbatim>\<open>App.tsx\<close> (the second document of
  \<^verbatim>\<open>src/src/components/VehicleVisualization.tsx\<close>). A JavaScript \<^verbatim>\<open>number\<close> that
  carries a physical quantity is a \<^typ>\<open>real\<close>: rounding of IEEE doubles, signed zeros and
  NaN are outside the model. Wall-clock times in milliseconds (\<^verbatim>\<open>Date.now()\<close>) are
  \<^typ>\<open>int\<close>. Asynchronous code is cut at each \<^verbatim>\<open>await\<close>: what runs between two of them
  is one step, and other events can come in between.
\<close>

subsection \<open>Helper functions\<close>

record vec3 =
  vx :: real
  vy :: real
  vz :: real

text \<open>
  \<^verbatim>\<open>Math.atan2(y, x)\<close> of the language's library, by the cases of ECMAScript's
  definition read over the reals (the two zeros of a double collapse into one, so the
  argument pair \<open>(0, 0)\<close> is the pair \<open>(+0, +0)\<close>, whose result is \<open>+0\<close>).
\<close>

definition atan2 :: "real \<Rightarrow> real \<Rightarrow> real" where
  "atan2 y x =
     (if 0 < x then arctan (y / x)
      else if x < 0 then (if 0 \<le> y then arctan (y / x) + pi else arctan (y / x) - pi)
      else if 0 < y then pi / 2
      else if y < 0 then - (pi / 2)
      else 0)"

definition toDeg :: "real \<Rightarrow> real" where
  "toDeg rad = rad * (180 / pi)"

definition calculateOrientation :: "vec3 \<Rightarrow> vec3" where
  "calculateOrientation acc =
     (let pitchRad = atan2 (vy acc) (vz acc);
          rollRad = atan2 (- vx acc) (sqrt (vy acc * vy acc + vz acc * vz acc))
      in \<lparr>vx = toDeg pitchRad, vy = 0, vz = toDeg rollRad\<rparr>)"

text \<open>The default \<^verbatim>\<open>alpha = 0.1\<close> of the source is never used: every call passes 0.3.\<close>

definition lowPassFilter :: "real \<Rightarrow> real \<Rightarrow> real \<Rightarrow> real" where
  "lowPassFilter current previous alpha = previous + alpha * (current - previous)"

text \<open>
  The filter applied \<open>n\<close> times to the same input \<open>current\<close>, each result being the
  \<open>previous\<close> of the next call, as \<^verbatim>\<open>prevAccel.current\<close> is in \<^verbatim>\<open>handleNewData\<close>.
\<close>

fun lowPassFilter_iter :: "real \<Rightarrow> real \<Rightarrow> real \<Rightarrow> nat \<Rightarrow> real" where
  "lowPassFilter_iter alpha current previous 0 = previous"
| "lowPassFilter_iter alpha current previous (Suc n) =
     lowPassFilter_iter alpha current (lowPassFilter current previous alpha) n"

definition scale :: "real \<Rightarrow> vec3 \<Rightarrow> vec3" where
  "scale k v = \<lparr>vx = k * vx v, vy = k * vy v, vz = k * vz v\<rparr>"

subsection \<open>Data\<close>

record Location =
  latitude :: real
  longitude :: real

text \<open>
  A row's \<^verbatim>\<open>created_at\<close> is kept as the instant it denotes, in milliseconds (what
  \<^verbatim>\<open>new Date(created_at).getTime()\<close> returns).
\<close>

record SensorData =
  location :: Location
  accelerometer :: vec3
  gyroscope :: vec3
  timestamp :: int

record SensorDataRow =
  row_latitude :: real
  row_longitude :: real
  acc_x :: real
  acc_y :: real
  acc_z :: real
  gyro_x :: real
  gyro_y :: real
  gyro_z :: real
  created_at :: int

definition convertToSensorData :: "SensorDataRow \<Rightarrow> SensorData" where
  "convertToSensorData row =
     \<lparr>location = \<lparr>latitude = row_latitude row, longitude = row_longitude row\<rparr>,
      accelerometer = \<lparr>vx = acc_x row / 16384, vy = acc_y row / 16384, vz = acc_z row / 16384\<rparr>,
      gyroscope = \<lparr>vx = gyro_x row / 131, vy = gyro_y row / 131, vz = gyro_z row / 131\<rparr>,
      timestamp = created_at row\<rparr>"

datatype VehicleType = Scooter | Car

record DetectionResult =
  isAccident :: bool
  dangerPercentage :: real

text \<open>
  The class \<^verbatim>\<open>AccidentDetectionService\<close> of \<^verbatim>\<open>lib/accidentDetection\<close> is not part of
  the sources at hand. It enters as a parameter: a state type \<open>'d\<close> and the four
  methods that \<^verbatim>\<open>App.tsx\<close> calls, each returning the service's next state.
\<close>

record 'd AccidentDetectionService =
  addReading :: "real \<Rightarrow> real \<Rightarrow> real \<Rightarrow> real \<Rightarrow> real \<Rightarrow> real \<Rightarrow> 'd \<Rightarrow> 'd"
  detectWithHistory :: "'d \<Rightarrow> DetectionResult \<times> 'd"
  setVehicleType :: "VehicleType \<Rightarrow> 'd \<Rightarrow> 'd"
  reset :: "'d \<Rightarrow> 'd"

subsection \<open>External collaborators\<close>

text \<open>
  The database (\<^verbatim>\<open>supabase\<close>) and the alert endpoint (\<^verbatim>\<open>fetch\<close>) are outside the
  program. A call to them either returns a value or rejects (\<open>Thrown\<close>). A returned
  \<^verbatim>\<open>insert\<close> carries the pair \<^verbatim>\<open>{data, error}\<close>; a returned \<^verbatim>\<open>update\<close> carries its
  \<^verbatim>\<open>error\<close>. The table \<^verbatim>\<open>accident_logs\<close> is kept as a map from the row's id: an insert
  that returns a row without an error stores it, an update that returns without an
  error changes it. An alert counts as sent when its request returns.
\<close>

datatype 'a outcome = Returned 'a | Thrown

type_synonym accident_id = string

datatype insert_response = Response (data: "accident_id option") (error: "string option")

record user_settings =
  user_email :: "string option"
  emergency_contact_1 :: "string option"
  emergency_contact_2 :: "string option"

datatype log_status = pending | confirmed | cancelled

record accident_log =
  log_latitude :: real
  log_longitude :: real
  danger_percentage :: real
  log_acc :: vec3
  log_gyro :: vec3
  status :: log_status
  user_responded :: bool
  emails_sent :: bool

datatype email_type = user_confirmation | emergency_alert

record alert =
  userEmail :: string
  contact1 :: string
  contact2 :: string
  alert_latitude :: real
  alert_longitude :: real
  alert_dangerPercentage :: real
  accidentId :: accident_id
  emailType :: email_type

text \<open>\<^verbatim>\<open>v || d\<close> on a nullable string: \<^verbatim>\<open>null\<close> and the empty string are falsy.\<close>

definition orElse :: "string option \<Rightarrow> string \<Rightarrow> string" where
  "orElse v d = (case v of None \<Rightarrow> d | Some s \<Rightarrow> if s = [] then d else s)"

definition alertBody ::
  "user_settings \<Rightarrow> real \<Rightarrow> real \<Rightarrow> real \<Rightarrow> accident_id \<Rightarrow> email_type \<Rightarrow> alert" where
  "alertBody settings lat lon danger aid ty =
     \<lparr>userEmail = orElse (user_email settings) ''telegram-user'',
      contact1 = orElse (emergency_contact_1 settings) ''telegram-group'',
      contact2 = orElse (emergency_contact_2 settings) [],
      alert_latitude = lat, alert_longitude = lon, alert_dangerPercentage = danger,
      accidentId = aid, emailType = ty\<rparr>"

subsection \<open>The component's state\<close>

text \<open>
  A pending timer of the runtime: its handle, the time it is due and its callback. The
  two callbacks of the program are the escalation (\<^verbatim>\<open>sendEmergencyAlerts\<close> with the
  values its closure holds) and the re-arming of the trigger latch.
\<close>

datatype callback =
  EmergencyTimeout accident_id "user_settings option" real real real
| ClearTriggered

record timer =
  handle :: nat
  due :: int
  callback :: callback

text \<open>
  An \<^verbatim>\<open>async\<close> function runs up to its next \<^verbatim>\<open>await\<close> and then waits for the
  collaborator; other events run in between. A task is such a suspended call: the
  \<^verbatim>\<open>await\<close> it stands at and the local values it still needs.
  \<^item> \<open>AwaitInsert\<close>: \<^verbatim>\<open>handleAccidentDetected\<close> at the insert into \<^verbatim>\<open>accident_logs\<close>;
  \<^item> \<open>AwaitSettings\<close>: the same at the query of \<^verbatim>\<open>user_settings\<close>;
  \<^item> \<open>AwaitConfirmationPost\<close>: the same at the request of the first alert;
  \<^item> \<open>AwaitEmergencyPost\<close>: \<^verbatim>\<open>sendEmergencyAlerts\<close> at the request of the emergency alert;
  \<^item> \<open>AwaitConfirmedUpdate\<close>: the same at the update to \<^verbatim>\<open>confirmed\<close>;
  \<^item> \<open>AwaitCancelledUpdate\<close>: \<^verbatim>\<open>handleCancelAccident\<close> at the update to \<^verbatim>\<open>cancelled\<close>;
  \<^item> \<open>AwaitLatestData\<close>: \<^verbatim>\<open>fetchHistory\<close> at \<^verbatim>\<open>getLatestSensorData\<close>, with the
    \<^verbatim>\<open>activeAccident\<close> and \<^verbatim>\<open>vehicleType\<close> that its \<^verbatim>\<open>handleNewData\<close> closes over;
  \<^item> \<open>AwaitVehicleType\<close>: \<^verbatim>\<open>loadVehicleType\<close> at \<^verbatim>\<open>getVehicleType\<close>.
  Nothing follows the \<^verbatim>\<open>await\<close> that ends \<^verbatim>\<open>handleVehicleChange\<close>, so it leaves no task.
\<close>

datatype task =
  AwaitInsert real real real vec3 vec3
| AwaitSettings accident_id real real real
| AwaitConfirmationPost accident_id user_settings real real real
| AwaitEmergencyPost accident_id user_settings real real real
| AwaitConfirmedUpdate accident_id
| AwaitCancelledUpdate accident_id
| AwaitLatestData "(accident_id \<times> real) option" VehicleType
| AwaitVehicleType

datatype answer =
  InsertAnswer "insert_response outcome"
| SettingsAnswer "user_settings option outcome"
| PostAnswer "unit outcome"
| UpdateAnswer "string option outcome"
| LatestAnswer "SensorDataRow option outcome"
| VehicleTypeAnswer "VehicleType option outcome"

record 'd app =
  clock :: int
  sensorData :: SensorData
  isConnected :: bool
  activeAccident :: "(accident_id \<times> real) option"
  lastPacketTimeRef :: int
  vehicleType :: VehicleType
  detectionService :: 'd
  accidentTimeoutRef :: "nat option"
  prevAccel :: vec3
  isTriggered :: bool
  timers :: "timer list"
  nextHandle :: nat
  tasks :: "(nat \<times> task) list"
  nextTask :: nat
  accident_logs :: "accident_id \<rightharpoonup> accident_log"
  alerts :: "alert list"

definition setTimeout :: "callback \<Rightarrow> int \<Rightarrow> 'd app \<Rightarrow> nat \<times> 'd app" where
  "setTimeout cb delay s =
     (nextHandle s,
      s\<lparr>timers := timers s @ [\<lparr>handle = nextHandle s, due = clock s + delay, callback = cb\<rparr>],
        nextHandle := Suc (nextHandle s)\<rparr>)"

definition clearTimeout :: "nat \<Rightarrow> 'd app \<Rightarrow> 'd app" where
  "clearTimeout h s = s\<lparr>timers := filter (\<lambda>t. handle t \<noteq> h) (timers s)\<rparr>"

text \<open>Suspending at an \<^verbatim>\<open>await\<close>: the request is out and the task waits for its answer.\<close>

definition suspend :: "task \<Rightarrow> 'd app \<Rightarrow> 'd app" where
  "suspend t s = s\<lparr>tasks := tasks s @ [(nextTask s, t)], nextTask := Suc (nextTask s)\<rparr>"

text \<open>
  The subscribing effect has the dependencies \<^verbatim>\<open>[activeAccident, vehicleType]\<close>. When
  one of them changes the component renders again and the effect runs again: it defines
  a \<^verbatim>\<open>handleNewData\<close> that closes over the new values, calls \<^verbatim>\<open>fetchHistory\<close> and
  subscribes anew. The render is taken to follow the change at once, so the subscribed
  handler always sees the current values, while a \<^verbatim>\<open>fetchHistory\<close> still waiting keeps
  the values of its own render. React skips the render when the new state is the old
  one: \<^verbatim>\<open>null\<close> over \<^verbatim>\<open>null\<close>, or the same vehicle type; a fresh object always differs.
\<close>

definition fetchHistory :: "'d app \<Rightarrow> 'd app" where
  "fetchHistory s = suspend (AwaitLatestData (activeAccident s) (vehicleType s)) s"

definition setActiveAccident :: "(accident_id \<times> real) option \<Rightarrow> 'd app \<Rightarrow> 'd app" where
  "setActiveAccident v s =
     (if v = None \<and> activeAccident s = None then s
      else fetchHistory (s\<lparr>activeAccident := v\<rparr>))"

definition setVehicleTypeState :: "VehicleType \<Rightarrow> 'd app \<Rightarrow> 'd app" where
  "setVehicleTypeState v s =
     (if v = vehicleType s then s else fetchHistory (s\<lparr>vehicleType := v\<rparr>))"

text \<open>
  The state when the component mounts (the \<^verbatim>\<open>useState\<close> and \<^verbatim>\<open>useRef\<close> initial values),
  with the two calls its effects start: \<^verbatim>\<open>loadVehicleType\<close> and \<^verbatim>\<open>fetchHistory\<close>.
\<close>

definition mount :: "int \<Rightarrow> SensorData \<Rightarrow> VehicleType \<Rightarrow> 'd \<Rightarrow> 'd app" where
  "mount t0 simulated vt d0 =
     \<lparr>clock = t0, sensorData = simulated, isConnected = False, activeAccident = None,
      lastPacketTimeRef = t0, vehicleType = vt, detectionService = d0,
      accidentTimeoutRef = None, prevAccel = \<lparr>vx = 0, vy = 0, vz = 1\<rparr>,
      isTriggered = False, timers = [], nextHandle = 0,
      tasks = [(0, AwaitVehicleType), (1, AwaitLatestData None vt)], nextTask = 2,
      accident_logs = Map.empty, alerts = []\<rparr>"

subsection \<open>The handlers\<close>

definition heartbeatInterval :: "'d app \<Rightarrow> 'd app" where
  "heartbeatInterval s =
     (let threshold = 10000;
          timeSinceLastPacket = clock s - lastPacketTimeRef s;
          shouldBeConnected = timeSinceLastPacket < threshold
      in s\<lparr>isConnected :=
             (if isConnected s \<noteq> shouldBeConnected then shouldBeConnected else isConnected s)\<rparr>)"

text \<open>
  \<^verbatim>\<open>sendEmergencyAlerts\<close>, in its three stretches: up to the alert request, from its
  answer to the update, and from the update's answer to the end. Without settings
  nothing is sent and nothing is stored. A rejected call leaves the rest undone.
\<close>

definition sendEmergencyAlerts_end :: "'d app \<Rightarrow> 'd app" where
  "sendEmergencyAlerts_end s = snd (setTimeout ClearTriggered 5000 (setActiveAccident None s))"

definition sendEmergencyAlerts ::
  "accident_id \<Rightarrow> user_settings option \<Rightarrow> real \<Rightarrow> real \<Rightarrow> real \<Rightarrow> 'd app \<Rightarrow> 'd app" where
  "sendEmergencyAlerts aid settings lat lon danger s =
     (case settings of
        None \<Rightarrow> sendEmergencyAlerts_end s
      | Some st \<Rightarrow> suspend (AwaitEmergencyPost aid st lat lon danger) s)"

definition sendEmergencyAlerts_posted ::
  "accident_id \<Rightarrow> user_settings \<Rightarrow> real \<Rightarrow> real \<Rightarrow> real \<Rightarrow> unit outcome \<Rightarrow> 'd app \<Rightarrow> 'd app" where
  "sendEmergencyAlerts_posted aid st lat lon danger posted s =
     (case posted of
        Thrown \<Rightarrow> s
      | Returned _ \<Rightarrow>
          suspend (AwaitConfirmedUpdate aid)
            (s\<lparr>alerts := alerts s @ [alertBody st lat lon danger aid emergency_alert]\<rparr>))"

definition sendEmergencyAlerts_updated ::
  "accident_id \<Rightarrow> string option outcome \<Rightarrow> 'd app \<Rightarrow> 'd app" where
  "sendEmergencyAlerts_updated aid updated s =
     (case updated of
        Thrown \<Rightarrow> s
      | Returned err \<Rightarrow>
          sendEmergencyAlerts_end
            (case (err, accident_logs s aid) of
               (None, Some r) \<Rightarrow>
                 s\<lparr>accident_logs := (accident_logs s)
                      (aid \<mapsto> r\<lparr>status := confirmed, emails_sent := True\<rparr>)\<rparr>
             | _ \<Rightarrow> s))"

text \<open>
  \<^verbatim>\<open>handleAccidentDetected\<close>, in its four stretches: up to the insert, from its answer
  to the settings query, from there to the first alert request, and the arming of the
  escalation. The whole body is inside \<^verbatim>\<open>try\<close>, so a rejected call ends it where it
  stands, with what was done before kept.
\<close>

definition handleAccidentDetected ::
  "real \<Rightarrow> real \<Rightarrow> real \<Rightarrow> vec3 \<Rightarrow> vec3 \<Rightarrow> 'd app \<Rightarrow> 'd app" where
  "handleAccidentDetected lat lon danger acc gyro s = suspend (AwaitInsert lat lon danger acc gyro) s"

definition handleAccidentDetected_armed ::
  "accident_id \<Rightarrow> user_settings option \<Rightarrow> real \<Rightarrow> real \<Rightarrow> real \<Rightarrow> 'd app \<Rightarrow> 'd app" where
  "handleAccidentDetected_armed aid settings lat lon danger s =
     (let (h, s1) = setTimeout (EmergencyTimeout aid settings lat lon danger) 30000 s
      in s1\<lparr>accidentTimeoutRef := Some h\<rparr>)"

definition handleAccidentDetected_inserted ::
  "real \<Rightarrow> real \<Rightarrow> real \<Rightarrow> vec3 \<Rightarrow> vec3 \<Rightarrow> insert_response outcome \<Rightarrow> 'd app \<Rightarrow> 'd app" where
  "handleAccidentDetected_inserted lat lon danger acc gyro ins s =
     (case ins of
        Thrown \<Rightarrow> s
      | Returned r \<Rightarrow>
          (case (error r, data r) of
             (None, Some aid) \<Rightarrow>
               (let s1 = s\<lparr>accident_logs := (accident_logs s)
                            (aid \<mapsto> \<lparr>log_latitude = lat, log_longitude = lon,
                                     danger_percentage = danger, log_acc = acc, log_gyro = gyro,
                                     status = pending, user_responded = False,
                                     emails_sent = False\<rparr>)\<rparr>;
                    s2 = setActiveAccident (Some (aid, danger)) s1
                in suspend (AwaitSettings aid lat lon danger) s2)
           | _ \<Rightarrow> s))"

definition handleAccidentDetected_settings ::
  "accident_id \<Rightarrow> real \<Rightarrow> real \<Rightarrow> real \<Rightarrow> user_settings option outcome \<Rightarrow> 'd app \<Rightarrow> 'd app" where
  "handleAccidentDetected_settings aid lat lon danger loaded s =
     (case loaded of
        Thrown \<Rightarrow> s
      | Returned settings \<Rightarrow>
          (case settings of
             Some st \<Rightarrow> suspend (AwaitConfirmationPost aid st lat lon danger) s
           | None \<Rightarrow> handleAccidentDetected_armed aid settings lat lon danger s))"

definition handleAccidentDetected_posted ::
  "accident_id \<Rightarrow> user_settings \<Rightarrow> real \<Rightarrow> real \<Rightarrow> real \<Rightarrow> unit outcome \<Rightarrow> 'd app \<Rightarrow> 'd app" where
  "handleAccidentDetected_posted aid st lat lon danger posted s =
     (case posted of
        Thrown \<Rightarrow> s
      | Returned _ \<Rightarrow>
          handleAccidentDetected_armed aid (Some st) lat lon danger
            (s\<lparr>alerts := alerts s @ [alertBody st lat lon danger aid user_confirmation]\<rparr>))"

text \<open>
  The override block of \<^verbatim>\<open>handleNewData\<close> (from \<^verbatim>\<open>let shouldTrigger\<close> to the end of
  the \<^verbatim>\<open>if/else\<close> on the vehicle type): the pair \<open>(shouldTrigger, finalDanger)\<close>.
\<close>

definition vehicleOverride :: "VehicleType \<Rightarrow> DetectionResult \<Rightarrow> real \<Rightarrow> bool \<times> real" where
  "vehicleOverride vt result zValue =
     (let shouldTrigger = isAccident result;
          finalDanger = dangerPercentage result
      in if vt = Scooter then
           (let isUpsideDown = zValue < - 0.5;
                isTippedOver = \<bar>zValue\<bar> < 0.4
            in if isUpsideDown \<or> isTippedOver then
                 (True, if isUpsideDown then 100
                        else if isTippedOver then max finalDanger 80 else finalDanger)
               else (shouldTrigger, finalDanger))
         else if \<bar>zValue\<bar> < 0.3 then (True, max finalDanger 90)
         else (shouldTrigger, finalDanger))"

text \<open>
  \<^verbatim>\<open>handleNewData\<close> is defined inside the effect: \<open>active\<close> and \<open>vt\<close> are the
  \<^verbatim>\<open>activeAccident\<close> and \<^verbatim>\<open>vehicleType\<close> of the render it closes over;
  \<^verbatim>\<open>isTriggered.current\<close> is a ref and is read as it is now. It is synchronous:
  \<^verbatim>\<open>handleAccidentDetected\<close> is called without \<^verbatim>\<open>await\<close>.
\<close>

definition handleNewData ::
  "'d AccidentDetectionService \<Rightarrow> (accident_id \<times> real) option \<Rightarrow> VehicleType \<Rightarrow>
     SensorDataRow \<Rightarrow> 'd app \<Rightarrow> 'd app" where
  "handleNewData svc active vt newData s =
     (let raw = convertToSensorData newData;
          s1 = s\<lparr>lastPacketTimeRef := clock s, isConnected := True\<rparr>;
          smoothAlpha = 0.3;
          smoothedAccel =
            \<lparr>vx = lowPassFilter (vx (accelerometer raw)) (vx (prevAccel s1)) smoothAlpha,
             vy = lowPassFilter (vy (accelerometer raw)) (vy (prevAccel s1)) smoothAlpha,
             vz = lowPassFilter (vz (accelerometer raw)) (vz (prevAccel s1)) smoothAlpha\<rparr>;
          s2 = s1\<lparr>prevAccel := smoothedAccel\<rparr>;
          finalData = raw\<lparr>accelerometer := smoothedAccel\<rparr>;
          s3 = s2\<lparr>sensorData := finalData\<rparr>;
          d1 = addReading svc
                 (vx (accelerometer finalData)) (vy (accelerometer finalData))
                 (vz (accelerometer finalData))
                 (vx (gyroscope finalData)) (vy (gyroscope finalData)) (vz (gyroscope finalData))
                 (detectionService s3);
          (result, d2) = detectWithHistory svc d1;
          s4 = s3\<lparr>detectionService := d2\<rparr>;
          zValue = vz (accelerometer finalData);
          (shouldTrigger, finalDanger) = vehicleOverride vt result zValue
      in if shouldTrigger \<and> active = None \<and> \<not> isTriggered s4 then
           handleAccidentDetected
             (latitude (location finalData)) (longitude (location finalData)) finalDanger
             \<lparr>vx = acc_x newData, vy = acc_y newData, vz = acc_z newData\<rparr>
             \<lparr>vx = gyro_x newData, vy = gyro_y newData, vz = gyro_z newData\<rparr>
             (s4\<lparr>isTriggered := True\<rparr>)
         else s4)"

text \<open>
  Parts of \<^verbatim>\<open>handleNewData\<close> under names of their own, for stating what it does: the
  filter's output, the detector fed and asked, the state once the reading is taken in,
  and the decision \<open>(shouldTrigger, finalDanger)\<close> taken on it. Lemma
  \<open>handleNewData_decision\<close> below shows that \<^verbatim>\<open>handleNewData\<close> is these put together.
\<close>

definition smoothed :: "SensorDataRow \<Rightarrow> 'd app \<Rightarrow> vec3" where
  "smoothed newData s =
     \<lparr>vx = lowPassFilter (acc_x newData / 16384) (vx (prevAccel s)) 0.3,
      vy = lowPassFilter (acc_y newData / 16384) (vy (prevAccel s)) 0.3,
      vz = lowPassFilter (acc_z newData / 16384) (vz (prevAccel s)) 0.3\<rparr>"

definition fed :: "'d AccidentDetectionService \<Rightarrow> SensorDataRow \<Rightarrow> 'd app \<Rightarrow> DetectionResult \<times> 'd" where
  "fed svc newData s =
     detectWithHistory svc
       (addReading svc (vx (smoothed newData s)) (vy (smoothed newData s)) (vz (smoothed newData s))
          (gyro_x newData / 131) (gyro_y newData / 131) (gyro_z newData / 131)
          (detectionService s))"

definition received :: "'d AccidentDetectionService \<Rightarrow> SensorDataRow \<Rightarrow> 'd app \<Rightarrow> 'd app" where
  "received svc newData s =
     s\<lparr>lastPacketTimeRef := clock s, isConnected := True,
       prevAccel := smoothed newData s,
       sensorData := (convertToSensorData newData)\<lparr>accelerometer := smoothed newData s\<rparr>,
       detectionService := snd (fed svc newData s)\<rparr>"

definition decision ::
  "'d AccidentDetectionService \<Rightarrow> VehicleType \<Rightarrow> SensorDataRow \<Rightarrow> 'd app \<Rightarrow> bool \<times> real" where
  "decision svc vt newData s =
     vehicleOverride vt (fst (fed svc newData s)) (vz (smoothed newData s))"

text \<open>\<^verbatim>\<open>fetchHistory\<close> from the answer of \<^verbatim>\<open>getLatestSensorData\<close> on.\<close>

definition fetchHistory_loaded ::
  "'d AccidentDetectionService \<Rightarrow> (accident_id \<times> real) option \<Rightarrow> VehicleType \<Rightarrow>
     SensorDataRow option outcome \<Rightarrow> 'd app \<Rightarrow> 'd app" where
  "fetchHistory_loaded svc active vt loaded s =
     (case loaded of
        Thrown \<Rightarrow> s
      | Returned None \<Rightarrow> s
      | Returned (Some latestData) \<Rightarrow>
          (let dataAge = clock s - created_at latestData;
               s1 = handleNewData svc active vt latestData s
           in if dataAge < 10000 then s1\<lparr>isConnected := True\<rparr> else s1))"

text \<open>\<^verbatim>\<open>handleCancelAccident\<close>, up to the update and from its answer on.\<close>

definition handleCancelAccident :: "'d app \<Rightarrow> 'd app" where
  "handleCancelAccident s =
     (case (activeAccident s, accidentTimeoutRef s) of
        (Some a, Some h) \<Rightarrow>
          (let s1 = clearTimeout h s;
               s2 = s1\<lparr>accidentTimeoutRef := None\<rparr>
           in suspend (AwaitCancelledUpdate (fst a)) s2)
      | _ \<Rightarrow> s)"

definition handleCancelAccident_updated ::
  "'d AccidentDetectionService \<Rightarrow> accident_id \<Rightarrow> string option outcome \<Rightarrow> 'd app \<Rightarrow> 'd app" where
  "handleCancelAccident_updated svc aid updated s =
     (case updated of
        Thrown \<Rightarrow> s
      | Returned err \<Rightarrow>
          (let s3 = (case (err, accident_logs s aid) of
                       (None, Some r) \<Rightarrow>
                         s\<lparr>accident_logs := (accident_logs s)
                              (aid \<mapsto> r\<lparr>status := cancelled, user_responded := True\<rparr>)\<rparr>
                     | _ \<Rightarrow> s);
               s4 = setActiveAccident None s3;
               s5 = s4\<lparr>detectionService := reset svc (detectionService s4)\<rparr>
           in snd (setTimeout ClearTriggered 5000 s5)))"

definition handleVehicleChange ::
  "'d AccidentDetectionService \<Rightarrow> VehicleType \<Rightarrow> 'd app \<Rightarrow> 'd app" where
  "handleVehicleChange svc newType s =
     (let s1 = setVehicleTypeState newType s
      in s1\<lparr>detectionService := setVehicleType svc newType (detectionService s1)\<rparr>)"

definition loadVehicleType_loaded ::
  "'d AccidentDetectionService \<Rightarrow> VehicleType option outcome \<Rightarrow> 'd app \<Rightarrow> 'd app" where
  "loadVehicleType_loaded svc loaded s =
     (case loaded of
        Thrown \<Rightarrow> s
      | Returned None \<Rightarrow> s
      | Returned (Some type) \<Rightarrow>
          (let s1 = setVehicleTypeState type s
           in s1\<lparr>detectionService := setVehicleType svc type (detectionService s1)\<rparr>))"

subsection \<open>Events\<close>

text \<open>
  The runtime delivers one event at a time, and the code it starts runs up to its next
  \<^verbatim>\<open>await\<close>: a row from the subscription, a click on the alert's cancel button, a timer
  that is due, the answer of a collaborator to a waiting task, the heartbeat, a change
  of the vehicle type. A timer can fire once its time is due, not before; the clock only
  advances by \<open>Elapse\<close>. An event that cannot happen (a timer that is not pending or not
  yet due, an answer to no waiting task or of the wrong kind) has no successor state.
\<close>

datatype event =
  NewData SensorDataRow
| CancelClick
| TimerFires nat
| Answer nat answer
| Heartbeat
| Elapse nat
| VehicleChange VehicleType

definition fireTimer :: "nat \<Rightarrow> 'd app \<Rightarrow> 'd app option" where
  "fireTimer h s =
     (case find (\<lambda>t. handle t = h) (timers s) of
        None \<Rightarrow> None
      | Some t \<Rightarrow>
          if clock s < due t then None
          else
            (let s1 = s\<lparr>timers := filter (\<lambda>t. handle t \<noteq> h) (timers s)\<rparr>
             in Some (case callback t of
                        EmergencyTimeout aid settings lat lon danger \<Rightarrow>
                          sendEmergencyAlerts aid settings lat lon danger s1
                      | ClearTriggered \<Rightarrow> s1\<lparr>isTriggered := False\<rparr>)))"

text \<open>A task goes on with the answer of the call it waits for.\<close>

definition resume ::
  "'d AccidentDetectionService \<Rightarrow> task \<Rightarrow> answer \<Rightarrow> 'd app \<Rightarrow> 'd app option" where
  "resume svc t a s =
     (case (t, a) of
        (AwaitInsert lat lon danger acc gyro, InsertAnswer ins) \<Rightarrow>
          Some (handleAccidentDetected_inserted lat lon danger acc gyro ins s)
      | (AwaitSettings aid lat lon danger, SettingsAnswer loaded) \<Rightarrow>
          Some (handleAccidentDetected_settings aid lat lon danger loaded s)
      | (AwaitConfirmationPost aid st lat lon danger, PostAnswer posted) \<Rightarrow>
          Some (handleAccidentDetected_posted aid st lat lon danger posted s)
      | (AwaitEmergencyPost aid st lat lon danger, PostAnswer posted) \<Rightarrow>
          Some (sendEmergencyAlerts_posted aid st lat lon danger posted s)
      | (AwaitConfirmedUpdate aid, UpdateAnswer updated) \<Rightarrow>
          Some (sendEmergencyAlerts_updated aid updated s)
      | (AwaitCancelledUpdate aid, UpdateAnswer updated) \<Rightarrow>
          Some (handleCancelAccident_updated svc aid updated s)
      | (AwaitLatestData active vt, LatestAnswer loaded) \<Rightarrow>
          Some (fetchHistory_loaded svc active vt loaded s)
      | (AwaitVehicleType, VehicleTypeAnswer loaded) \<Rightarrow>
          Some (loadVehicleType_loaded svc loaded s)
      | _ \<Rightarrow> None)"

definition deliver ::
  "'d AccidentDetectionService \<Rightarrow> nat \<Rightarrow> answer \<Rightarrow> 'd app \<Rightarrow> 'd app option" where
  "deliver svc tid a s =
     (case map_of (tasks s) tid of
        None \<Rightarrow> None
      | Some t \<Rightarrow> resume svc t a (s\<lparr>tasks := filter (\<lambda>p. fst p \<noteq> tid) (tasks s)\<rparr>))"

fun step :: "'d AccidentDetectionService \<Rightarrow> event \<Rightarrow> 'd app \<Rightarrow> 'd app option" where
  "step svc (NewData row) s = Some (handleNewData svc (activeAccident s) (vehicleType s) row s)"
| "step svc CancelClick s = Some (handleCancelAccident s)"
| "step svc (TimerFires h) s = fireTimer h s"
| "step svc (Answer tid a) s = deliver svc tid a s"
| "step svc Heartbeat s = Some (heartbeatInterval s)"
| "step svc (Elapse dt) s = Some (s\<lparr>clock := clock s + int dt\<rparr>)"
| "step svc (VehicleChange vt) s = Some (handleVehicleChange svc vt s)"

fun run :: "'d AccidentDetectionService \<Rightarrow> event list \<Rightarrow> 'd app \<Rightarrow> 'd app option" where
  "run svc [] s = Some s"
| "run svc (e # es) s = (case step svc e s of None \<Rightarrow> None | Some s' \<Rightarrow> run svc es s')"

subsection \<open>A detection service for the examples\<close>

text \<open>
  Modelled from the spec: \<^verbatim>\<open>lib/accidentDetection\<close> (the class
  \<^verbatim>\<open>AccidentDetectionService\<close>) is missing from the sources. By the spec, the service
  keeps a history of recent readings of fixed capacity, the oldest evicted first;
  \<^verbatim>\<open>reset\<close> clears the history and \<^verbatim>\<open>setVehicleType\<close> keeps it. The spec leaves the
  scoring formula open: the base detector here never flags an accident by itself, so in
  the examples every trigger comes from the overrides of \<^verbatim>\<open>handleNewData\<close>.
\<close>

definition historyService :: "nat \<Rightarrow> (vec3 \<times> vec3) list AccidentDetectionService" where
  "historyService capacity =
     \<lparr>addReading = (\<lambda>ax ay az gx gy gz history.
         (let extended = history @ [(\<lparr>vx = ax, vy = ay, vz = az\<rparr>, \<lparr>vx = gx, vy = gy, vz = gz\<rparr>)]
          in drop (length extended - capacity) extended)),
      detectWithHistory = (\<lambda>history. (\<lparr>isAccident = False, dangerPercentage = 0\<rparr>, history)),
      setVehicleType = (\<lambda>vt history. history),
      reset = (\<lambda>history. [])\<rparr>"

subsection \<open>Tasks, timers and the events they belong to\<close>

text \<open>
  The outcomes of the insert on which \<^verbatim>\<open>handleAccidentDetected\<close> gives up: the call
  rejects, or it returns an error or no row (\<^verbatim>\<open>if (logError || !accidentLog) return\<close>).
\<close>

fun failing :: "insert_response outcome \<Rightarrow> bool" where
  "failing Thrown = True"
| "failing (Returned r) = (error r \<noteq> None \<or> data r = None)"

text \<open>
  The tasks that belong to no accident (\<^verbatim>\<open>fetchHistory\<close> and \<^verbatim>\<open>loadVehicleType\<close>), and
  those that wait for the insert.
\<close>

fun background :: "task \<Rightarrow> bool" where
  "background (AwaitLatestData active vt) = True"
| "background AwaitVehicleType = True"
| "background t = False"

fun inserting :: "task \<Rightarrow> bool" where
  "inserting (AwaitInsert lat lon danger acc gyro) = True"
| "inserting t = False"

text \<open>
  The state a failed insert leaves: no active event, the latch set, no timer, and
  nothing waiting but background tasks and the insert numbered \<open>n\<close>.
\<close>

definition latched :: "nat \<Rightarrow> 'd app \<Rightarrow> bool" where
  "latched n s =
     (activeAccident s = None \<and> isTriggered s \<and> timers s = [] \<and>
      list_all (\<lambda>p. background (snd p) \<or> (inserting (snd p) \<and> fst p = n)) (tasks s))"

text \<open>Any event but the answer of an insert that succeeds.\<close>

fun insertFails :: "event \<Rightarrow> bool" where
  "insertFails (Answer tid (InsertAnswer ins)) = failing ins"
| "insertFails ev = True"

text \<open>The accident a task works on, and the accident a timer escalates.\<close>

fun concerns :: "task \<Rightarrow> accident_id option" where
  "concerns (AwaitSettings aid lat lon danger) = Some aid"
| "concerns (AwaitConfirmationPost aid st lat lon danger) = Some aid"
| "concerns (AwaitEmergencyPost aid st lat lon danger) = Some aid"
| "concerns (AwaitConfirmedUpdate aid) = Some aid"
| "concerns (AwaitCancelledUpdate aid) = Some aid"
| "concerns t = None"

fun escalates :: "callback \<Rightarrow> accident_id option" where
  "escalates (EmergencyTimeout aid settings lat lon danger) = Some aid"
| "escalates ClearTriggered = None"

text \<open>
  Every accident that a timer, a task or \<^verbatim>\<open>activeAccident\<close> refers to has its row in
  \<^verbatim>\<open>accident_logs\<close>.
\<close>

definition stored :: "'d app \<Rightarrow> accident_id option \<Rightarrow> bool" where
  "stored s ref = (case ref of None \<Rightarrow> True | Some aid \<Rightarrow> accident_logs s aid \<noteq> None)"

definition recorded :: "'d app \<Rightarrow> bool" where
  "recorded s =
     (list_all (\<lambda>t. stored s (escalates (callback t))) (timers s) \<and>
      list_all (\<lambda>p. stored s (concerns (snd p))) (tasks s) \<and>
      stored s (map_option fst (activeAccident s)))"

text \<open>
  What the examples look at: the status of a stored event, the accidents whose
  escalation timer is pending, and the accidents an emergency alert went out for.
\<close>

definition statusOf :: "accident_id \<Rightarrow> 'd app \<Rightarrow> log_status option" where
  "statusOf aid s = map_option status (accident_logs s aid)"

definition escalating :: "'d app \<Rightarrow> accident_id list" where
  "escalating s = List.map_filter (\<lambda>t. escalates (callback t)) (timers s)"

definition emergencies :: "'d app \<Rightarrow> accident_id list" where
  "emergencies s = map accidentId (filter (\<lambda>a. emailType a = emergency_alert) (alerts s))"

subsection \<open>Example data\<close>

text \<open>
  A row of a scooter lying on its side and shaken: 1 g along x and -2 g along z. From
  rest (\<open>z = 1\<close>) the filter gives \<open>z = 0.1\<close>, inside the tipped-over band; fed again it
  gives \<open>z = -0.53\<close> and then \<open>z = -0.971\<close>, upside down.
\<close>

definition fallen :: SensorDataRow where
  "fallen = \<lparr>row_latitude = 36.8, row_longitude = 10.18, acc_x = 16384, acc_y = 0, acc_z = - 32768,
     gyro_x = 0, gyro_y = 0, gyro_z = 0, created_at = 0\<rparr>"

definition blank :: SensorData where
  "blank = \<lparr>location = \<lparr>latitude = 0, longitude = 0\<rparr>, accelerometer = \<lparr>vx = 0, vy = 0, vz = 1\<rparr>,
     gyroscope = \<lparr>vx = 0, vy = 0, vz = 0\<rparr>, timestamp = 0\<rparr>"

definition rider :: user_settings where
  "rider = \<lparr>user_email = Some ''r@x'', emergency_contact_1 = None, emergency_contact_2 = Some []\<rparr>"

text \<open>The answers of collaborators that work: each call returns, without error.\<close>

definition inserted :: "accident_id \<Rightarrow> answer" where
  "inserted aid = InsertAnswer (Returned (Response (Some aid) None))"

definition found :: "user_settings option \<Rightarrow> answer" where
  "found st = SettingsAnswer (Returned st)"

definition posted :: answer where
  "posted = PostAnswer (Returned ())"

definition updated :: answer where
  "updated = UpdateAnswer (Returned None)"

definition latest :: "SensorDataRow \<Rightarrow> answer" where
  "latest row = LatestAnswer (Returned (Some row))"

text \<open>A scooter's component, mounted at time 0 with an empty detector history.\<close>

definition started :: "(vec3 \<times> vec3) list app" where
  "started = mount 0 blank Scooter []"

text \<open>
  A first accident \<open>a1\<close> runs into its timeout and is confirmed (the timeout leaves
  \<^verbatim>\<open>accidentTimeoutRef\<close> as it is). A second one, \<open>a2\<close>, is cancelled by a click
  that comes while \<^verbatim>\<open>handleAccidentDetected\<close> still waits for the settings: the guard of
  \<^verbatim>\<open>handleCancelAccident\<close> passes on the handle left by \<open>a1\<close>, and
  \<^verbatim>\<open>handleAccidentDetected\<close> then goes on and arms the escalation of \<open>a2\<close>. Once the
  latch is re-armed a third accident \<open>a3\<close> is detected and its escalation armed too.
\<close>

definition race :: "event list" where
  "race =
     [NewData fallen, Answer 2 (inserted ''a1''), Answer 4 (found (Some rider)), Answer 5 posted,
      Elapse 30000, TimerFires 0, Answer 6 posted, Answer 7 updated,
      Elapse 5000, TimerFires 1,
      NewData fallen, Answer 9 (inserted ''a2''), CancelClick,
      Answer 11 (found (Some rider)), Answer 13 posted, Answer 12 updated,
      Elapse 5000, TimerFires 3,
      Elapse 1000, NewData fallen, Answer 15 (inserted ''a3''),
      Answer 17 (found (Some rider)), Answer 18 posted]"

text \<open>
  How it goes on: the escalation of \<open>a2\<close> fires while \<open>a3\<close> is pending; at its end
  \<^verbatim>\<open>sendEmergencyAlerts\<close> clears \<^verbatim>\<open>activeAccident\<close>, which holds \<open>a3\<close>, and 5000 ms
  later the latch. The next reading creates \<open>a4\<close> while the escalation of \<open>a3\<close> is
  still pending.
\<close>

definition overlap :: "event list" where
  "overlap =
     [Elapse 24000, TimerFires 2, Answer 19 posted, Answer 20 updated,
      Elapse 5000, TimerFires 5,
      NewData fallen, Answer 22 (inserted ''a4''), Answer 24 (found (Some rider)), Answer 25 posted]"

text \<open>
  A click on the cancel button right after the event is shown, while
  \<^verbatim>\<open>handleAccidentDetected\<close> waits for the settings and no timer is armed yet; everything
  else goes its way.
\<close>

definition ignored :: "event list" where
  "ignored =
     [NewData fallen, Answer 2 (inserted ''a1''), CancelClick, Answer 4 (found (Some rider)),
      Answer 5 posted, Elapse 30000, TimerFires 0, Answer 6 posted, Answer 7 updated]"

text \<open>
  A click on the cancel button when the escalation has just fired and
  \<^verbatim>\<open>sendEmergencyAlerts\<close> waits for the alert request, which takes 3000 ms.
\<close>

definition late :: "event list" where
  "late =
     [NewData fallen, Answer 2 (inserted ''a1''), Answer 4 (found (Some rider)), Answer 5 posted,
      Elapse 30000, TimerFires 0, CancelClick, Answer 7 updated,
      Elapse 3000, Answer 6 posted, Answer 9 updated]"

text \<open>
  Then the timer that the cancellation set re-arms the latch, 2000 ms after the
  escalation ended, and a reading comes in.
\<close>

definition early :: "event list" where
  "early = [Elapse 2000, TimerFires 1, NewData fallen, Answer 10 (inserted ''a2'')]"

section \<open>Properties\<close>

lemma lowPassFilter_iter_error:
  "lowPassFilter_iter alpha c x n - c = (1 - alpha) ^ n * (x - c)"
proof (induction n arbitrary: x)
  case 0
  show ?case by simp
next
  case (Suc n)
  have "lowPassFilter c x alpha - c = (1 - alpha) * (x - c)"
    by (simp add: lowPassFilter_def algebra_simps)
  with Suc [of "lowPassFilter c x alpha"] show ?case
    by simp
qed

lemma lowPassFilter_iter_Suc:
  "lowPassFilter_iter alpha c x (Suc n) = lowPassFilter c (lowPassFilter_iter alpha c x n) alpha"
  by (induction n arbitrary: x) simp_all

lemma atan2_scale:
  assumes "0 < k"
  shows "atan2 (k * y) (k * x) = atan2 y x"
proof -
  from assms have "(0 < k * x) = (0 < x)" "(k * x < 0) = (x < 0)"
    "(0 \<le> k * y) = (0 \<le> y)" "(0 < k * y) = (0 < y)" "(k * y < 0) = (y < 0)"
    by (simp_all add: zero_less_mult_iff mult_less_0_iff zero_le_mult_iff)
  moreover from assms have "k * y / (k * x) = y / x"
    by simp
  ultimately show ?thesis
    unfolding atan2_def by presburger
qed

subsection \<open>The smoothing filter\<close>

text \<open>
  Claim C7. The filter returns \<open>previous + alpha * (raw - previous)\<close>. For every
  \<open>alpha\<close> with \<open>0 < alpha \<le> 1\<close>, feeding the same input \<open>c\<close> again and again brings
  the filter's value within any \<open>\<epsilon> > 0\<close> of \<open>c\<close> from some call on, and each call
  moves the value towards \<open>c\<close> without passing it: upwards when the filter starts
  below \<open>c\<close>, downwards when it starts above.
\<close>

theorem lowPassFilter_converges:
  assumes "0 < alpha" and "alpha \<le> 1"
  shows "lowPassFilter raw previous alpha = previous + alpha * (raw - previous) \<and>
         (\<forall>\<epsilon>>0. \<exists>N. \<forall>n\<ge>N. \<bar>lowPassFilter_iter alpha c x n - c\<bar> < \<epsilon>) \<and>
         (x \<le> c \<longrightarrow>
            (\<forall>n. lowPassFilter_iter alpha c x n \<le> lowPassFilter_iter alpha c x (Suc n) \<and>
                 lowPassFilter_iter alpha c x (Suc n) \<le> c)) \<and>
         (c \<le> x \<longrightarrow>
            (\<forall>n. c \<le> lowPassFilter_iter alpha c x (Suc n) \<and>
                 lowPassFilter_iter alpha c x (Suc n) \<le> lowPassFilter_iter alpha c x n))"
proof -
  let ?f = "lowPassFilter_iter alpha c x"
  have q: "0 \<le> 1 - alpha" "1 - alpha < 1"
    using assms by simp_all
  have formula: "lowPassFilter raw previous alpha = previous + alpha * (raw - previous)"
    by (simp add: lowPassFilter_def)
  have "(\<lambda>n. (1 - alpha) ^ n) \<longlonglongrightarrow> 0"
    using q by (rule LIMSEQ_realpow_zero)
  then have "(\<lambda>n. (1 - alpha) ^ n * (x - c)) \<longlonglongrightarrow> 0"
    by (rule tendsto_mult_left_zero)
  then have lim: "(\<lambda>n. ?f n - c) \<longlonglongrightarrow> 0"
    by (simp add: lowPassFilter_iter_error)
  have conv: "\<forall>\<epsilon>>0. \<exists>N. \<forall>n\<ge>N. \<bar>?f n - c\<bar> < \<epsilon>"
    using lim by (simp add: LIMSEQ_iff)
  have step: "?f (Suc n) = ?f n + alpha * (c - ?f n)" for n
    by (simp only: lowPassFilter_iter_Suc lowPassFilter_def)
  have below: "?f n \<le> c" if "x \<le> c" for n
  proof -
    have "(1 - alpha) ^ n * (x - c) \<le> 0"
      using q that by (simp add: mult_nonneg_nonpos)
    then show ?thesis
      using lowPassFilter_iter_error [of alpha c x n] by simp
  qed
  have above: "c \<le> ?f n" if "c \<le> x" for n
  proof -
    have "0 \<le> (1 - alpha) ^ n * (x - c)"
      using q that by simp
    then show ?thesis
      using lowPassFilter_iter_error [of alpha c x n] by simp
  qed
  have up: "?f n \<le> ?f (Suc n) \<and> ?f (Suc n) \<le> c" if "x \<le> c" for n
  proof -
    have "0 \<le> alpha * (c - ?f n)"
      using assms below [OF that, of n] by simp
    then show ?thesis
      using step [of n] below [OF that, of "Suc n"] by linarith
  qed
  have down: "c \<le> ?f (Suc n) \<and> ?f (Suc n) \<le> ?f n" if "c \<le> x" for n
  proof -
    have "alpha * (c - ?f n) \<le> 0"
      using assms above [OF that, of n] by (simp add: mult_nonneg_nonpos)
    then show ?thesis
      using step [of n] above [OF that, of "Suc n"] by linarith
  qed
  show ?thesis
    using formula conv up down by blast
qed

text \<open>The theorem at \<open>alpha = 0.3\<close>, the value \<^verbatim>\<open>handleNewData\<close> uses.\<close>

theorem lowPassFilter_converges_witness:
  "(0::real) < 3 / 10 \<and> (3 / 10 :: real) \<le> 1 \<and>
   lowPassFilter 2 1 (3 / 10) = 13 / 10 \<and>
   lowPassFilter_iter (3 / 10) 1 0 1 \<le> lowPassFilter_iter (3 / 10) 1 0 2 \<and>
   lowPassFilter_iter (3 / 10) 1 0 2 \<le> 1 \<and>
   (\<exists>N. \<forall>n\<ge>N. \<bar>lowPassFilter_iter (3 / 10) 1 0 n - 1\<bar> < 1 / 1000)"
proof -
  have a: "(0::real) < 3 / 10" and b: "(3 / 10 :: real) \<le> 1"
    by simp_all
  note t = lowPassFilter_converges [OF a b, of 2 1 1 0]
  from t have "lowPassFilter 2 1 (3 / 10) = 13 / 10"
    by simp
  moreover from t have "\<forall>n. lowPassFilter_iter (3 / 10) 1 0 n \<le> lowPassFilter_iter (3 / 10) 1 0 (Suc n) \<and>
      lowPassFilter_iter (3 / 10) 1 0 (Suc n) \<le> 1"
    by (simp del: lowPassFilter_iter.simps)
  then have "lowPassFilter_iter (3 / 10) 1 0 1 \<le> lowPassFilter_iter (3 / 10) 1 0 (Suc 1) \<and>
      lowPassFilter_iter (3 / 10) 1 0 (Suc 1) \<le> 1"
    by (rule spec)
  then have "lowPassFilter_iter (3 / 10) 1 0 1 \<le> lowPassFilter_iter (3 / 10) 1 0 2 \<and>
      lowPassFilter_iter (3 / 10) 1 0 2 \<le> 1"
    by (simp only: Suc_1)
  moreover from t have "\<forall>\<epsilon>>0. \<exists>N. \<forall>n\<ge>N. \<bar>lowPassFilter_iter (3 / 10) 1 0 n - 1\<bar> < \<epsilon>"
    by (simp del: lowPassFilter_iter.simps)
  then have "(0::real) < 1 / 1000 \<longrightarrow>
      (\<exists>N. \<forall>n\<ge>N. \<bar>lowPassFilter_iter (3 / 10) 1 0 n - 1\<bar> < 1 / 1000)"
    by (rule spec)
  then have "\<exists>N. \<forall>n\<ge>N. \<bar>lowPassFilter_iter (3 / 10) 1 0 n - 1\<bar> < 1 / 1000"
    by (rule mp) simp
  ultimately show ?thesis
    using a b by blast
qed

subsection \<open>The orientation estimate\<close>

text \<open>
  Claim C8. Scaling the accelerometer vector by any \<open>k > 0\<close> leaves the orientation
  unchanged; the pitch is \<open>atan2 y z\<close> and the roll is \<open>atan2 (- x) (sqrt (y\<^sup>2 + z\<^sup>2))\<close>,
  both in degrees.
\<close>

theorem calculateOrientation_scale_invariant:
  assumes "0 < k"
  shows "calculateOrientation (scale k v) = calculateOrientation v \<and>
         vx (calculateOrientation v) = atan2 (vy v) (vz v) * (180 / pi) \<and>
         vz (calculateOrientation v) =
           atan2 (- vx v) (sqrt ((vy v)\<^sup>2 + (vz v)\<^sup>2)) * (180 / pi)"
proof -
  have "k * vy v * (k * vy v) + k * vz v * (k * vz v) = k\<^sup>2 * (vy v * vy v + vz v * vz v)"
    by (simp add: power2_eq_square algebra_simps)
  then have root: "sqrt (k * vy v * (k * vy v) + k * vz v * (k * vz v)) =
      k * sqrt (vy v * vy v + vz v * vz v)"
    using assms by (simp add: real_sqrt_mult)
  have "atan2 (- (k * vx v)) (k * sqrt (vy v * vy v + vz v * vz v)) =
      atan2 (- vx v) (sqrt (vy v * vy v + vz v * vz v))"
    using atan2_scale [OF assms, of "- vx v"] by simp
  then have "calculateOrientation (scale k v) = calculateOrientation v"
    by (simp add: calculateOrientation_def scale_def root atan2_scale [OF assms])
  then show ?thesis
    by (simp add: calculateOrientation_def toDeg_def power2_eq_square)
qed

theorem calculateOrientation_scale_invariant_witness:
  "(0::real) < 2 \<and>
   calculateOrientation \<lparr>vx = 2, vy = 4, vz = 6\<rparr> = calculateOrientation \<lparr>vx = 1, vy = 2, vz = 3\<rparr>"
  using calculateOrientation_scale_invariant [of 2 "\<lparr>vx = 1, vy = 2, vz = 3\<rparr>"]
  by (simp add: scale_def)

text \<open>
  Claim C9. On the all-zero vector the orientation is the zero orientation: pitch 0 and
  roll 0, a value like any other.
\<close>

theorem calculateOrientation_zero_vector:
  "calculateOrientation \<lparr>vx = 0, vy = 0, vz = 0\<rparr> = \<lparr>vx = 0, vy = 0, vz = 0\<rparr>"
  by (simp add: calculateOrientation_def atan2_def toDeg_def)

subsection \<open>Unfolding the examples\<close>

text \<open>The definitions that the examples unfold.\<close>

lemmas example_defs =
  started_def mount_def fallen_def blank_def rider_def inserted_def found_def posted_def updated_def
  statusOf_def historyService_def
  handleNewData_def convertToSensorData_def lowPassFilter_def vehicleOverride_def
  handleAccidentDetected_def handleAccidentDetected_inserted_def handleAccidentDetected_settings_def
  handleAccidentDetected_posted_def handleAccidentDetected_armed_def
  sendEmergencyAlerts_def sendEmergencyAlerts_posted_def sendEmergencyAlerts_updated_def
  sendEmergencyAlerts_end_def handleCancelAccident_def handleCancelAccident_updated_def
  handleVehicleChange_def loadVehicleType_loaded_def fetchHistory_loaded_def fetchHistory_def
  setActiveAccident_def setVehicleTypeState_def setTimeout_def clearTimeout_def suspend_def
  fireTimer_def resume_def deliver_def heartbeatInterval_def alertBody_def orElse_def Let_def

lemmas trace_defs = example_defs latest_def escalating_def emergencies_def List.map_filter_simps

subsection \<open>The overrides of the vehicle type\<close>

text \<open>
  \<^verbatim>\<open>handleNewData\<close> takes the reading in, and calls \<^verbatim>\<open>handleAccidentDetected\<close> with the
  latch set when the decision says so, no event is active in its closure and the latch
  is clear.
\<close>

lemma handleNewData_decision:
  "handleNewData svc active vt row s =
     (if fst (decision svc vt row s) \<and> active = None \<and> \<not> isTriggered s then
        handleAccidentDetected (row_latitude row) (row_longitude row)
          (snd (decision svc vt row s))
          \<lparr>vx = acc_x row, vy = acc_y row, vz = acc_z row\<rparr>
          \<lparr>vx = gyro_x row, vy = gyro_y row, vz = gyro_z row\<rparr>
          ((received svc row s)\<lparr>isTriggered := True\<rparr>)
      else received svc row s)"
  by (simp add: handleNewData_def decision_def received_def fed_def smoothed_def
      convertToSensorData_def Let_def split_def)

lemma received_frame [simp]:
  "activeAccident (received svc row s) = activeAccident s"
  "isTriggered (received svc row s) = isTriggered s"
  "timers (received svc row s) = timers s"
  "nextHandle (received svc row s) = nextHandle s"
  "tasks (received svc row s) = tasks s"
  "nextTask (received svc row s) = nextTask s"
  "accidentTimeoutRef (received svc row s) = accidentTimeoutRef s"
  "accident_logs (received svc row s) = accident_logs s"
  "alerts (received svc row s) = alerts s"
  "clock (received svc row s) = clock s"
  "vehicleType (received svc row s) = vehicleType s"
  "lastPacketTimeRef (received svc row s) = clock s"
  "detectionService (received svc row s) = snd (fed svc row s)"
  "prevAccel (received svc row s) = smoothed row s"
  by (simp_all add: received_def)

lemma suspend_frame [simp]:
  "activeAccident (suspend t s) = activeAccident s"
  "isTriggered (suspend t s) = isTriggered s"
  "timers (suspend t s) = timers s"
  "nextHandle (suspend t s) = nextHandle s"
  "tasks (suspend t s) = tasks s @ [(nextTask s, t)]"
  "nextTask (suspend t s) = Suc (nextTask s)"
  "accidentTimeoutRef (suspend t s) = accidentTimeoutRef s"
  "accident_logs (suspend t s) = accident_logs s"
  "alerts (suspend t s) = alerts s"
  "clock (suspend t s) = clock s"
  "vehicleType (suspend t s) = vehicleType s"
  "lastPacketTimeRef (suspend t s) = lastPacketTimeRef s"
  "detectionService (suspend t s) = detectionService s"
  "prevAccel (suspend t s) = prevAccel s"
  "isConnected (suspend t s) = isConnected s"
  by (simp_all add: suspend_def)

lemma handleNewData_ignored:
  assumes "active \<noteq> None \<or> isTriggered s"
  shows "handleNewData svc active vt row s = received svc row s"
  using assms by (auto simp: handleNewData_decision)

lemma handleNewData_frame [simp]:
  "clock (handleNewData svc active vt row s) = clock s"
  "lastPacketTimeRef (handleNewData svc active vt row s) = clock s"
  "detectionService (handleNewData svc active vt row s) = snd (fed svc row s)"
  "prevAccel (handleNewData svc active vt row s) = smoothed row s"
  "activeAccident (handleNewData svc active vt row s) = activeAccident s"
  "timers (handleNewData svc active vt row s) = timers s"
  "accident_logs (handleNewData svc active vt row s) = accident_logs s"
  "alerts (handleNewData svc active vt row s) = alerts s"
  "vehicleType (handleNewData svc active vt row s) = vehicleType s"
  by (simp_all add: handleNewData_decision handleAccidentDetected_def)

text \<open>
  Claim C3. The overrides on the smoothed z: scooter with \<open>z < -0.5\<close> gives
  \<open>(True, 100)\<close>, scooter with \<open>|z| < 0.4\<close> gives \<open>(True, max danger 80)\<close>, car with
  \<open>|z| < 0.3\<close> gives \<open>(True, max danger 90)\<close>, whatever the base result; in particular
  scooter at \<open>z = -0.6\<close> and car at \<open>z = 0.25\<close>. The \<open>z\<close> that \<^verbatim>\<open>handleNewData\<close>
  passes is the filter's output for the row's z, the trigger decision and the danger
  passed on are the override's result, and this is what every row of the subscription
  goes through.
\<close>

theorem vehicle_overrides_applied:
  "(z < - 0.5 \<longrightarrow> vehicleOverride Scooter result z = (True, 100)) \<and>
   (\<bar>z\<bar> < 0.4 \<longrightarrow> vehicleOverride Scooter result z = (True, max (dangerPercentage result) 80)) \<and>
   (\<bar>z\<bar> < 0.3 \<longrightarrow> vehicleOverride Car result z = (True, max (dangerPercentage result) 90)) \<and>
   vehicleOverride Scooter result (- 0.6) = (True, 100) \<and>
   fst (vehicleOverride Car result 0.25) \<and> 90 \<le> snd (vehicleOverride Car result 0.25) \<and>
   decision svc vt row s =
     vehicleOverride vt (fst (fed svc row s))
       (lowPassFilter (acc_z row / 16384) (vz (prevAccel s)) 0.3) \<and>
   vz (prevAccel (handleNewData svc active vt row s)) =
     lowPassFilter (acc_z row / 16384) (vz (prevAccel s)) 0.3 \<and>
   handleNewData svc active vt row s =
     (if fst (decision svc vt row s) \<and> active = None \<and> \<not> isTriggered s then
        handleAccidentDetected (row_latitude row) (row_longitude row)
          (snd (decision svc vt row s))
          \<lparr>vx = acc_x row, vy = acc_y row, vz = acc_z row\<rparr>
          \<lparr>vx = gyro_x row, vy = gyro_y row, vz = gyro_z row\<rparr>
          ((received svc row s)\<lparr>isTriggered := True\<rparr>)
      else received svc row s) \<and>
   step svc (NewData row) s = Some (handleNewData svc (activeAccident s) (vehicleType s) row s)"
proof -
  have up: "vehicleOverride Scooter result z = (True, 100)" if "z < - 0.5"
    using that by (simp add: vehicleOverride_def)
  have tipped: "vehicleOverride Scooter result z = (True, max (dangerPercentage result) 80)"
    if "\<bar>z\<bar> < 0.4"
  proof -
    from that have "\<not> z < - 0.5"
      by simp
    with that show ?thesis
      by (simp add: vehicleOverride_def)
  qed
  have flat: "vehicleOverride Car result z = (True, max (dangerPercentage result) 90)"
    if "\<bar>z\<bar> < 0.3"
    using that by (simp add: vehicleOverride_def)
  have scooter: "vehicleOverride Scooter result (- 0.6) = (True, 100)"
    by (simp add: vehicleOverride_def)
  have car: "vehicleOverride Car result 0.25 = (True, max (dangerPercentage result) 90)"
    by (simp add: vehicleOverride_def)
  have dec: "decision svc vt row s =
     vehicleOverride vt (fst (fed svc row s))
       (lowPassFilter (acc_z row / 16384) (vz (prevAccel s)) 0.3)"
    by (simp add: decision_def smoothed_def)
  have prev: "vz (prevAccel (handleNewData svc active vt row s)) =
     lowPassFilter (acc_z row / 16384) (vz (prevAccel s)) 0.3"
    by (simp add: smoothed_def)
  show ?thesis
    using up tipped flat scooter car dec prev handleNewData_decision [of svc active vt row s]
    by simp
qed

text \<open>
  The three bands at sample values, and the first tipped-over reading of a scooter at
  rest.
\<close>

theorem vehicle_overrides_applied_witness:
  "(- 0.7 :: real) < - 0.5 \<and>
   vehicleOverride Scooter \<lparr>isAccident = False, dangerPercentage = 12\<rparr> (- 0.7) = (True, 100) \<and>
   \<bar>0.1 :: real\<bar> < 0.4 \<and>
   vehicleOverride Scooter \<lparr>isAccident = False, dangerPercentage = 12\<rparr> 0.1 = (True, 80) \<and>
   vehicleOverride Scooter \<lparr>isAccident = False, dangerPercentage = 95\<rparr> 0.1 = (True, 95) \<and>
   \<bar>0.25 :: real\<bar> < 0.3 \<and>
   vehicleOverride Car \<lparr>isAccident = False, dangerPercentage = 12\<rparr> 0.25 = (True, 90) \<and>
   decision (historyService 3) Scooter fallen started = (True, 80)"
proof -
  let ?low = "\<lparr>isAccident = False, dangerPercentage = 12\<rparr>"
  let ?high = "\<lparr>isAccident = False, dangerPercentage = 95\<rparr>"
  note a = vehicle_overrides_applied [of "- 0.7" ?low "historyService 3" Scooter fallen started]
  note b = vehicle_overrides_applied [of "0.1" ?low "historyService 3" Scooter fallen started]
  note c = vehicle_overrides_applied [of "0.1" ?high "historyService 3" Scooter fallen started]
  note d = vehicle_overrides_applied [of "0.25" ?low "historyService 3" Scooter fallen started]
  have "vehicleOverride Scooter ?low (- 0.7) = (True, 100)"
    using a by simp
  moreover have "vehicleOverride Scooter ?low 0.1 = (True, 80)"
    using b by simp
  moreover have "vehicleOverride Scooter ?high 0.1 = (True, 95)"
    using c by simp
  moreover have "vehicleOverride Car ?low 0.25 = (True, 90)"
    using d by simp
  moreover have "decision (historyService 3) Scooter fallen started = (True, 80)"
    using a by (simp add: fed_def historyService_def started_def mount_def fallen_def
        lowPassFilter_def vehicleOverride_def)
  ultimately show ?thesis
    by simp
qed

subsection \<open>The connection monitor\<close>

text \<open>
  Claim C6. The heartbeat sets \<open>isConnected\<close> to
  \<open>now - lastPacketTime < 10000\<close>, strictly: with the last reading at 0 the state is
  connected at 9999 and not connected at 10000 and at 10001.
\<close>

theorem heartbeat_staleness:
  "isConnected (heartbeatInterval s) = (clock s - lastPacketTimeRef s < 10000) \<and>
   lastPacketTimeRef (handleNewData svc active vt row s) = clock s \<and>
   map_option isConnected
     (run svc [NewData row, Elapse 9999, Heartbeat] (mount 0 sd v d)) = Some True \<and>
   map_option isConnected
     (run svc [NewData row, Elapse 10000, Heartbeat] (mount 0 sd v d)) = Some False \<and>
   map_option isConnected
     (run svc [NewData row, Elapse 10001, Heartbeat] (mount 0 sd v d)) = Some False"
proof -
  have tick: "isConnected (heartbeatInterval x) = (clock x - lastPacketTimeRef x < 10000)"
    for x :: "'a app"
    by (simp add: heartbeatInterval_def Let_def)
  have start: "clock (mount 0 sd v d) = 0"
    by (simp add: mount_def)
  show ?thesis
    by (simp add: tick start)
qed

subsection \<open>A failed insert\<close>

lemma inserting_not_background:
  assumes "inserting t"
  shows "\<not> background t"
  using assms by (cases t) simp_all

lemma handleAccidentDetected_inserted_failing:
  assumes "failing ins"
  shows "handleAccidentDetected_inserted lat lon danger acc gyro ins s = s"
  using assms
  by (cases ins) (auto simp: handleAccidentDetected_inserted_def split: option.splits)

lemma fetchHistory_frame [simp]:
  "activeAccident (fetchHistory s) = activeAccident s"
  "isTriggered (fetchHistory s) = isTriggered s"
  "timers (fetchHistory s) = timers s"
  "accident_logs (fetchHistory s) = accident_logs s"
  "alerts (fetchHistory s) = alerts s"
  "clock (fetchHistory s) = clock s"
  "vehicleType (fetchHistory s) = vehicleType s"
  "detectionService (fetchHistory s) = detectionService s"
  "nextHandle (fetchHistory s) = nextHandle s"
  "accidentTimeoutRef (fetchHistory s) = accidentTimeoutRef s"
  "tasks (fetchHistory s) = tasks s @ [(nextTask s, AwaitLatestData (activeAccident s) (vehicleType s))]"
  "nextTask (fetchHistory s) = Suc (nextTask s)"
  by (simp_all add: fetchHistory_def)

lemma latched_frame:
  assumes "latched n s"
    and "activeAccident s' = activeAccident s" "isTriggered s' = isTriggered s"
    "timers s' = timers s" "tasks s' = tasks s"
  shows "latched n s'"
  using assms(1) unfolding latched_def assms(2-) .

lemma latched_tasks:
  assumes "latched n s"
    and "activeAccident s' = activeAccident s" "isTriggered s' = isTriggered s"
    "timers s' = timers s"
    "list_all (\<lambda>p. background (snd p) \<or> (inserting (snd p) \<and> fst p = n)) (tasks s')"
  shows "latched n s'"
  using assms by (simp add: latched_def)

lemma latched_vehicle:
  assumes "latched n s"
  shows "latched n (setVehicleTypeState v s)"
  using assms by (auto simp: setVehicleTypeState_def latched_def)

lemma setVehicleTypeState_frame [simp]:
  "accident_logs (setVehicleTypeState v s) = accident_logs s"
  "alerts (setVehicleTypeState v s) = alerts s"
  "activeAccident (setVehicleTypeState v s) = activeAccident s"
  "isTriggered (setVehicleTypeState v s) = isTriggered s"
  "timers (setVehicleTypeState v s) = timers s"
  "clock (setVehicleTypeState v s) = clock s"
  "detectionService (setVehicleTypeState v s) = detectionService s"
  by (simp_all add: setVehicleTypeState_def)

lemma latched_resume:
  assumes l: "latched n s" and t: "background t \<or> inserting t"
    and ok: "insertFails (Answer tid a)"
    and r: "resume svc t a s = Some s'"
  shows "latched n s' \<and> accident_logs s' = accident_logs s \<and> alerts s' = alerts s"
proof (cases t)
  case (AwaitInsert lat lon danger acc gyro)
  with r obtain ins where a: "a = InsertAnswer ins"
    by (cases a) (simp_all add: resume_def)
  with ok have "failing ins"
    by simp
  with r a AwaitInsert have "s' = s"
    by (simp add: resume_def handleAccidentDetected_inserted_failing)
  with l show ?thesis
    by simp
next
  case (AwaitLatestData active vt)
  with r obtain loaded where a: "a = LatestAnswer loaded"
    by (cases a) (simp_all add: resume_def)
  with r AwaitLatestData have s': "s' = fetchHistory_loaded svc active vt loaded s"
    by (simp add: resume_def)
  have latch: "isTriggered s"
    using l by (simp add: latched_def)
  show ?thesis
  proof (cases loaded)
    case Thrown
    with s' l show ?thesis
      by (simp add: fetchHistory_loaded_def)
  next
    case (Returned found)
    show ?thesis
    proof (cases found)
      case None
      with s' l Returned show ?thesis
        by (simp add: fetchHistory_loaded_def)
    next
      case (Some row)
      have "latched n (received svc row s)"
        using l by (rule latched_frame) simp_all
      then have "latched n (received svc row s\<lparr>isConnected := True\<rparr>)"
        by (rule latched_frame) simp_all
      then show ?thesis
        using s' Returned Some latch \<open>latched n (received svc row s)\<close>
        by (simp add: fetchHistory_loaded_def handleNewData_ignored Let_def)
    qed
  qed
next
  case AwaitVehicleType
  with r obtain loaded where a: "a = VehicleTypeAnswer loaded"
    by (cases a) (simp_all add: resume_def)
  with r AwaitVehicleType have s': "s' = loadVehicleType_loaded svc loaded s"
    by (simp add: resume_def)
  show ?thesis
  proof (cases loaded)
    case Thrown
    with s' l show ?thesis
      by (simp add: loadVehicleType_loaded_def)
  next
    case (Returned found)
    show ?thesis
    proof (cases found)
      case None
      with s' l Returned show ?thesis
        by (simp add: loadVehicleType_loaded_def)
    next
      case (Some v)
      have "latched n (setVehicleTypeState v s)"
        using l by (rule latched_vehicle)
      then have "latched n (setVehicleTypeState v s
          \<lparr>detectionService := setVehicleType svc v (detectionService (setVehicleTypeState v s))\<rparr>)"
        by (rule latched_frame) simp_all
      then show ?thesis
        using s' Returned Some by (simp add: loadVehicleType_loaded_def Let_def)
    qed
  qed
qed (use t in simp_all)

lemma latched_step:
  assumes l: "latched n s" and ok: "insertFails ev" and st: "step svc ev s = Some s'"
  shows "latched n s' \<and> accident_logs s' = accident_logs s \<and> alerts s' = alerts s"
proof (cases ev)
  case (NewData row)
  have "latched n (received svc row s)"
    using l by (rule latched_frame) simp_all
  moreover have "isTriggered s"
    using l by (simp add: latched_def)
  ultimately show ?thesis
    using st NewData by (auto simp: handleNewData_ignored)
next
  case CancelClick
  have "activeAccident s = None"
    using l by (simp add: latched_def)
  then have "handleCancelAccident s = s"
    by (simp add: handleCancelAccident_def)
  then show ?thesis
    using st CancelClick l by auto
next
  case (TimerFires h)
  have "timers s = []"
    using l by (simp add: latched_def)
  then have "fireTimer h s = None"
    by (simp add: fireTimer_def)
  then show ?thesis
    using st TimerFires by simp
next
  case (Answer tid a)
  with st obtain t where t: "map_of (tasks s) tid = Some t"
    and r: "resume svc t a (s\<lparr>tasks := filter (\<lambda>p. fst p \<noteq> tid) (tasks s)\<rparr>) = Some s'"
    by (auto simp: deliver_def split: option.splits)
  from t have mem: "(tid, t) \<in> set (tasks s)"
    by (rule map_of_SomeD)
  with l have kind: "background t \<or> inserting t"
    by (auto simp: latched_def list_all_iff)
  have "latched n (s\<lparr>tasks := filter (\<lambda>p. fst p \<noteq> tid) (tasks s)\<rparr>)"
    using l by (rule latched_tasks) (use l in \<open>auto simp: latched_def list_all_iff\<close>)
  from latched_resume [OF this kind _ r] ok Answer show ?thesis
    by simp
next
  case Heartbeat
  have "latched n (heartbeatInterval s)"
    using l by (rule latched_frame) (simp_all add: heartbeatInterval_def Let_def)
  then show ?thesis
    using st Heartbeat by (auto simp: heartbeatInterval_def Let_def)
next
  case (Elapse dt)
  have "latched n (s\<lparr>clock := clock s + int dt\<rparr>)"
    using l by (rule latched_frame) simp_all
  then show ?thesis
    using st Elapse by auto
next
  case (VehicleChange v)
  have "latched n (setVehicleTypeState v s)"
    using l by (rule latched_vehicle)
  then have "latched n (setVehicleTypeState v s
      \<lparr>detectionService := setVehicleType svc v (detectionService (setVehicleTypeState v s))\<rparr>)"
    by (rule latched_frame) simp_all
  then show ?thesis
    using st VehicleChange by (auto simp: handleVehicleChange_def Let_def)
qed

lemma latched_run:
  assumes "latched n s" "list_all insertFails evs" "run svc evs s = Some s'"
  shows "latched n s' \<and> accident_logs s' = accident_logs s \<and> alerts s' = alerts s"
  using assms
proof (induction evs arbitrary: s)
  case Nil
  then show ?case by simp
next
  case (Cons ev evs)
  from Cons.prems(3) obtain s1 where s1: "step svc ev s = Some s1" "run svc evs s1 = Some s'"
    by (cases "step svc ev s") simp_all
  from Cons.prems(2) have ok: "insertFails ev" "list_all insertFails evs"
    by simp_all
  note one = latched_step [OF Cons.prems(1) ok(1) s1(1)]
  from one have "latched n s1"
    by simp
  from Cons.IH [OF this ok(2) s1(2)] one show ?case
    by simp
qed

text \<open>
  Claim C2. Take a qualifying reading in an idle state: no active event, the latch clear,
  no timer, nothing waiting but \<^verbatim>\<open>fetchHistory\<close> and \<^verbatim>\<open>loadVehicleType\<close>. When its
  insert fails (it rejects, returns an error or returns no row), no event becomes active
  and no timer is armed. The latch however was set before the call and nothing clears it:
  whatever events follow, no event is created, no row is stored, no alert is sent, the
  latch stays set and no other insert is requested. Detection does not try again.
\<close>

theorem failed_insert_never_retries:
  assumes idle: "activeAccident s = None" "\<not> isTriggered s" "timers s = []"
      "list_all (\<lambda>p. background (snd p)) (tasks s)"
    and qualifying: "fst (decision svc (vehicleType s) row s)"
    and failed: "list_all insertFails evs"
    and later: "run svc (NewData row # evs) s = Some s'"
  shows "activeAccident s' = None \<and> timers s' = [] \<and>
         accident_logs s' = accident_logs s \<and> alerts s' = alerts s \<and> isTriggered s' \<and>
         list_all (\<lambda>p. inserting (snd p) \<longrightarrow> fst p = nextTask s) (tasks s')"
proof -
  let ?s1 = "handleNewData svc (activeAccident s) (vehicleType s) row s"
  have s1: "?s1 = handleAccidentDetected (row_latitude row) (row_longitude row)
          (snd (decision svc (vehicleType s) row s))
          \<lparr>vx = acc_x row, vy = acc_y row, vz = acc_z row\<rparr>
          \<lparr>vx = gyro_x row, vy = gyro_y row, vz = gyro_z row\<rparr>
          ((received svc row s)\<lparr>isTriggered := True\<rparr>)"
    using idle qualifying by (simp add: handleNewData_decision)
  have "latched (nextTask s) ?s1"
    using idle(1,3,4) unfolding s1
    by (auto simp: latched_def handleAccidentDetected_def list_all_iff)
  moreover from later have "run svc evs ?s1 = Some s'"
    by simp
  ultimately have "latched (nextTask s) s' \<and> accident_logs s' = accident_logs ?s1 \<and>
      alerts s' = alerts ?s1"
    using failed by (intro latched_run) simp_all
  then show ?thesis
    by (auto simp: latched_def list_all_iff dest: inserting_not_background)
qed

text \<open>
  The failing run: the insert of the first tipped-over reading returns an error, the
  insert of the second would succeed, yet none is requested and nothing is stored.
\<close>

theorem failed_insert_never_retries_witness:
  "\<exists>s'. run (historyService 3)
           [NewData fallen,
            Answer 2 (InsertAnswer (Returned (Response None (Some ''timeout'')))),
            NewData fallen]
           started = Some s' \<and>
        fst (decision (historyService 3) Scooter fallen started) \<and>
        activeAccident s' = None \<and> timers s' = [] \<and> accident_logs s' = Map.empty \<and>
        alerts s' = [] \<and> isTriggered s' \<and> list_all (\<lambda>p. \<not> inserting (snd p)) (tasks s')"
proof -
  let ?svc = "historyService 3"
  let ?evs = "[Answer 2 (InsertAnswer (Returned (Response None (Some ''timeout'')))), NewData fallen]"
  have run: "\<exists>s'. run ?svc (NewData fallen # ?evs) started = Some s'"
    by (simp add: example_defs)
  then obtain s' where s': "run ?svc (NewData fallen # ?evs) started = Some s'"
    by blast
  have idle: "activeAccident started = None" "\<not> isTriggered started" "timers started = []"
    "list_all (\<lambda>p. background (snd p)) (tasks started)"
    by (simp_all add: started_def mount_def)
  have vt: "vehicleType started = Scooter"
    by (simp add: started_def mount_def)
  have qualifying: "fst (decision ?svc (vehicleType started) fallen started)"
    by (simp add: decision_def vehicleOverride_def smoothed_def lowPassFilter_def fallen_def
        started_def mount_def Let_def)
  have failed: "list_all insertFails ?evs"
    by simp
  have gone: "list_all (\<lambda>p. \<not> inserting (snd p)) (tasks s')"
    using s' by (auto simp: example_defs)
  from failed_insert_never_retries [OF idle qualifying failed s'] qualifying vt gone s'
  show ?thesis
    by (auto simp: started_def mount_def)
qed

subsection \<open>The escalation\<close>

text \<open>
  In every state the component reaches, the accidents it refers to are stored: the
  update of \<^verbatim>\<open>sendEmergencyAlerts\<close> finds its row.
\<close>

lemma stored_simps [simp]:
  "stored s None"
  "stored s (Some aid) = (accident_logs s aid \<noteq> None)"
  by (simp_all add: stored_def)

lemma stored_mono:
  assumes "stored s r" "\<And>aid. accident_logs s aid \<noteq> None \<Longrightarrow> accident_logs s' aid \<noteq> None"
  shows "stored s' r"
  using assms by (cases r) simp_all

lemma stored_cong:
  assumes "accident_logs s' = accident_logs s"
  shows "stored s' r = stored s r"
  using assms by (cases r) simp_all

lemma recorded_mount: "recorded (mount t0 sd vt d0)"
  by (simp add: recorded_def mount_def)

lemma recorded_grow:
  assumes rec: "recorded s"
    and grow: "\<And>aid. accident_logs s aid \<noteq> None \<Longrightarrow> accident_logs s' aid \<noteq> None"
    and timers: "\<And>t. t \<in> set (timers s') \<Longrightarrow>
        t \<in> set (timers s) \<or> stored s' (escalates (callback t))"
    and tasks: "\<And>p. p \<in> set (tasks s') \<Longrightarrow> p \<in> set (tasks s) \<or> stored s' (concerns (snd p))"
    and active: "activeAccident s' = activeAccident s \<or> stored s' (map_option fst (activeAccident s'))"
  shows "recorded s'"
proof -
  have "stored s' (escalates (callback t))" if "t \<in> set (timers s')" for t
    using timers [OF that] rec grow by (auto simp: recorded_def list_all_iff intro: stored_mono)
  moreover have "stored s' (concerns (snd p))" if "p \<in> set (tasks s')" for p
    using tasks [OF that] rec grow by (auto simp: recorded_def list_all_iff intro: stored_mono)
  moreover have "stored s' (map_option fst (activeAccident s'))"
  proof -
    from rec have "stored s (map_option fst (activeAccident s))"
      by (simp add: recorded_def)
    then have "stored s' (map_option fst (activeAccident s))"
      using grow by (rule stored_mono)
    with active show ?thesis
      by auto
  qed
  ultimately show ?thesis
    by (simp add: recorded_def list_all_iff)
qed

lemma recorded_frame:
  assumes "recorded s"
    and "accident_logs s' = accident_logs s" "timers s' = timers s" "tasks s' = tasks s"
    "activeAccident s' = activeAccident s"
  shows "recorded s'"
  using assms(1) by (rule recorded_grow) (simp_all add: assms(2-))

lemma recorded_suspend:
  assumes "recorded s" "stored s (concerns t)"
  shows "recorded (suspend t s)"
  using assms(1) by (rule recorded_grow) (use assms(2) in \<open>auto simp: stored_cong [of "suspend t s" s]\<close>)

lemma recorded_fetchHistory:
  assumes "recorded s"
  shows "recorded (fetchHistory s)"
  unfolding fetchHistory_def using assms by (rule recorded_suspend) simp

lemma recorded_clear:
  assumes "recorded s"
  shows "recorded (setActiveAccident None s)"
proof -
  have "recorded (s\<lparr>activeAccident := None\<rparr>)"
    using assms by (rule recorded_grow) simp_all
  then show ?thesis
    using assms by (simp add: setActiveAccident_def recorded_fetchHistory)
qed

lemma recorded_setTimeout:
  assumes "recorded s" "stored s (escalates cb)"
  shows "recorded (snd (setTimeout cb delay s))"
  using assms(1)
  by (rule recorded_grow)
    (use assms(2) in \<open>auto simp: setTimeout_def stored_cong [of "s\<lparr>timers := x, nextHandle := y\<rparr>" s for x y]\<close>)

lemma recorded_handleNewData:
  assumes "recorded s"
  shows "recorded (handleNewData svc active vt row s)"
proof -
  have r: "recorded (received svc row s)"
    using assms by (rule recorded_frame) simp_all
  then have "recorded (received svc row s\<lparr>isTriggered := True\<rparr>)"
    by (rule recorded_frame) simp_all
  then have "recorded (handleAccidentDetected lat lon danger acc gyro (received svc row s\<lparr>isTriggered := True\<rparr>))"
    for lat lon danger acc gyro
    unfolding handleAccidentDetected_def by (rule recorded_suspend) simp
  with r show ?thesis
    by (simp add: handleNewData_decision)
qed

lemma recorded_handleCancelAccident:
  assumes "recorded s"
  shows "recorded (handleCancelAccident s)"
proof (cases "activeAccident s")
  case None
  with assms show ?thesis
    by (simp add: handleCancelAccident_def)
next
  case (Some a)
  show ?thesis
  proof (cases "accidentTimeoutRef s")
    case None
    with assms Some show ?thesis
      by (simp add: handleCancelAccident_def)
  next
    case (Some h)
    have row: "accident_logs s (fst a) \<noteq> None"
      using assms \<open>activeAccident s = Some a\<close> by (simp add: recorded_def)
    have "recorded (clearTimeout h s\<lparr>accidentTimeoutRef := None\<rparr>)"
      using assms by (rule recorded_grow) (auto simp: clearTimeout_def)
    then have "recorded (suspend (AwaitCancelledUpdate (fst a)) (clearTimeout h s\<lparr>accidentTimeoutRef := None\<rparr>))"
      by (rule recorded_suspend) (use row in \<open>simp add: clearTimeout_def\<close>)
    then show ?thesis
      using Some \<open>activeAccident s = Some a\<close> by (simp add: handleCancelAccident_def Let_def)
  qed
qed

lemma recorded_sendEmergencyAlerts_end:
  assumes "recorded s"
  shows "recorded (sendEmergencyAlerts_end s)"
  unfolding sendEmergencyAlerts_end_def
  by (rule recorded_setTimeout) (simp_all add: recorded_clear assms)

lemma recorded_fireTimer:
  assumes "recorded s" "fireTimer h s = Some s'"
  shows "recorded s'"
proof -
  from assms(2) obtain t where t: "find (\<lambda>t. handle t = h) (timers s) = Some t"
    and s': "s' = (case callback t of
        EmergencyTimeout aid settings lat lon danger \<Rightarrow>
          sendEmergencyAlerts aid settings lat lon danger
            (s\<lparr>timers := filter (\<lambda>t. handle t \<noteq> h) (timers s)\<rparr>)
      | ClearTriggered \<Rightarrow> s\<lparr>timers := filter (\<lambda>t. handle t \<noteq> h) (timers s), isTriggered := False\<rparr>)"
    by (auto simp: fireTimer_def Let_def split: option.splits if_splits)
  from t have mem: "t \<in> set (timers s)"
    by (auto simp: find_Some_iff)
  let ?s1 = "s\<lparr>timers := filter (\<lambda>t. handle t \<noteq> h) (timers s)\<rparr>"
  have r1: "recorded ?s1"
    using assms(1) by (rule recorded_grow) auto
  show ?thesis
  proof (cases "callback t")
    case ClearTriggered
    have "recorded (?s1\<lparr>isTriggered := False\<rparr>)"
      using r1 by (rule recorded_frame) simp_all
    with s' ClearTriggered show ?thesis
      by simp
  next
    case (EmergencyTimeout aid settings lat lon danger)
    with mem assms(1) have row: "accident_logs s aid \<noteq> None"
      by (auto simp: recorded_def list_all_iff)
    show ?thesis
    proof (cases settings)
      case None
      with s' EmergencyTimeout r1 show ?thesis
        by (simp add: sendEmergencyAlerts_def recorded_sendEmergencyAlerts_end)
    next
      case (Some st)
      have "recorded (suspend (AwaitEmergencyPost aid st lat lon danger) ?s1)"
        using r1 by (rule recorded_suspend) (use row in simp)
      with s' EmergencyTimeout Some show ?thesis
        by (simp add: sendEmergencyAlerts_def)
    qed
  qed
qed

lemma recorded_vehicle:
  assumes "recorded s"
  shows "recorded (setVehicleTypeState v s\<lparr>detectionService := d\<rparr>)"
proof -
  have "recorded (s\<lparr>vehicleType := v\<rparr>)"
    using assms by (rule recorded_frame) simp_all
  then have "recorded (setVehicleTypeState v s)"
    using assms by (simp add: setVehicleTypeState_def recorded_fetchHistory)
  then show ?thesis
    by (rule recorded_frame) simp_all
qed

lemma recorded_armed:
  assumes "recorded s" "accident_logs s aid \<noteq> None"
  shows "recorded (handleAccidentDetected_armed aid settings lat lon danger s)"
proof -
  have "recorded (snd (setTimeout (EmergencyTimeout aid settings lat lon danger) 30000 s))"
    using assms(1) by (rule recorded_setTimeout) (use assms(2) in simp)
  then have "recorded (snd (setTimeout (EmergencyTimeout aid settings lat lon danger) 30000 s)
      \<lparr>accidentTimeoutRef := Some (nextHandle s)\<rparr>)"
    by (rule recorded_frame) simp_all
  then show ?thesis
    by (simp add: handleAccidentDetected_armed_def setTimeout_def)
qed

lemma recorded_put:
  assumes "recorded s"
  shows "recorded (s\<lparr>accident_logs := (accident_logs s)(aid \<mapsto> x)\<rparr>)"
  using assms by (rule recorded_grow) simp_all

lemma recorded_resume:
  assumes rec: "recorded s" and t: "stored s (concerns t)" and r: "resume svc t a s = Some s'"
  shows "recorded s'"
proof (cases t)
  case (AwaitInsert lat lon danger acc gyro)
  with r obtain ins where "a = InsertAnswer ins"
    by (cases a) (simp_all add: resume_def)
  with r AwaitInsert have s': "s' = handleAccidentDetected_inserted lat lon danger acc gyro ins s"
    by (simp add: resume_def)
  have ok: "recorded (suspend (AwaitSettings aid lat lon danger)
      (setActiveAccident (Some (aid, danger)) (s\<lparr>accident_logs := (accident_logs s)(aid \<mapsto> row)\<rparr>)))"
    for aid row
  proof -
    have "recorded (s\<lparr>accident_logs := (accident_logs s)(aid \<mapsto> row), activeAccident := Some (aid, danger)\<rparr>)"
      using rec by (rule recorded_grow) simp_all
    then have "recorded (setActiveAccident (Some (aid, danger)) (s\<lparr>accident_logs := (accident_logs s)(aid \<mapsto> row)\<rparr>))"
      by (simp add: setActiveAccident_def recorded_fetchHistory)
    then show ?thesis
      by (rule recorded_suspend) (simp add: setActiveAccident_def)
  qed
  show ?thesis
    unfolding s' using rec ok
    by (simp add: handleAccidentDetected_inserted_def Let_def split: outcome.splits option.splits)
next
  case (AwaitSettings aid lat lon danger)
  with r obtain loaded where "a = SettingsAnswer loaded"
    by (cases a) (simp_all add: resume_def)
  with r AwaitSettings have s': "s' = handleAccidentDetected_settings aid lat lon danger loaded s"
    by (simp add: resume_def)
  from t AwaitSettings have row: "accident_logs s aid \<noteq> None"
    by simp
  have "recorded (suspend (AwaitConfirmationPost aid st lat lon danger) s)" for st
    using rec by (rule recorded_suspend) (use row in simp)
  then show ?thesis
    unfolding s' using rec row
    by (simp add: handleAccidentDetected_settings_def recorded_armed
        split: outcome.splits option.splits)
next
  case (AwaitConfirmationPost aid st lat lon danger)
  with r obtain posted where "a = PostAnswer posted"
    by (cases a) (simp_all add: resume_def)
  with r AwaitConfirmationPost have s': "s' = handleAccidentDetected_posted aid st lat lon danger posted s"
    by (simp add: resume_def)
  from t AwaitConfirmationPost have row: "accident_logs s aid \<noteq> None"
    by simp
  have "recorded (s\<lparr>alerts := x\<rparr>)" for x
    using rec by (rule recorded_frame) simp_all
  then show ?thesis
    unfolding s' using rec row
    by (simp add: handleAccidentDetected_posted_def recorded_armed split: outcome.splits)
next
  case (AwaitEmergencyPost aid st lat lon danger)
  with r obtain posted where "a = PostAnswer posted"
    by (cases a) (simp_all add: resume_def)
  with r AwaitEmergencyPost have s': "s' = sendEmergencyAlerts_posted aid st lat lon danger posted s"
    by (simp add: resume_def)
  from t AwaitEmergencyPost have row: "accident_logs s aid \<noteq> None"
    by simp
  have "recorded (suspend (AwaitConfirmedUpdate aid) (s\<lparr>alerts := x\<rparr>))" for x
  proof (rule recorded_suspend)
    show "recorded (s\<lparr>alerts := x\<rparr>)"
      using rec by (rule recorded_frame) simp_all
  qed (use row in simp)
  then show ?thesis
    unfolding s' using rec by (simp add: sendEmergencyAlerts_posted_def split: outcome.splits)
next
  case (AwaitConfirmedUpdate aid)
  with r obtain updated where "a = UpdateAnswer updated"
    by (cases a) (simp_all add: resume_def)
  with r AwaitConfirmedUpdate have s': "s' = sendEmergencyAlerts_updated aid updated s"
    by (simp add: resume_def)
  show ?thesis
    unfolding s' using rec
    by (simp add: sendEmergencyAlerts_updated_def recorded_sendEmergencyAlerts_end recorded_put
        split: outcome.splits option.splits)
next
  case (AwaitCancelledUpdate aid)
  with r obtain updated where "a = UpdateAnswer updated"
    by (cases a) (simp_all add: resume_def)
  with r AwaitCancelledUpdate have s': "s' = handleCancelAccident_updated svc aid updated s"
    by (simp add: resume_def)
  have "recorded (snd (setTimeout ClearTriggered 5000
      (setActiveAccident None x\<lparr>detectionService := d\<rparr>)))" if "recorded x" for x :: "'a app" and d
  proof (rule recorded_setTimeout)
    show "recorded (setActiveAccident None x\<lparr>detectionService := d\<rparr>)"
      using recorded_clear [OF that] by (rule recorded_frame) simp_all
  qed simp
  then show ?thesis
    unfolding s' using rec
    by (simp add: handleCancelAccident_updated_def recorded_put Let_def
        split: outcome.splits option.splits)
next
  case (AwaitLatestData active vt)
  with r obtain loaded where "a = LatestAnswer loaded"
    by (cases a) (simp_all add: resume_def)
  with r AwaitLatestData have s': "s' = fetchHistory_loaded svc active vt loaded s"
    by (simp add: resume_def)
  have "recorded (handleNewData svc active vt row s\<lparr>isConnected := True\<rparr>)" for row
    using recorded_handleNewData [OF rec, of svc active vt row]
    by (rule recorded_frame) simp_all
  then show ?thesis
    unfolding s' using rec
    by (simp add: fetchHistory_loaded_def recorded_handleNewData Let_def
        split: outcome.splits option.splits)
next
  case AwaitVehicleType
  with r obtain loaded where "a = VehicleTypeAnswer loaded"
    by (cases a) (simp_all add: resume_def)
  with r AwaitVehicleType have s': "s' = loadVehicleType_loaded svc loaded s"
    by (simp add: resume_def)
  show ?thesis
    unfolding s' using rec
    by (simp add: loadVehicleType_loaded_def recorded_vehicle Let_def
        split: outcome.splits option.splits)
qed

lemma recorded_step:
  assumes "recorded s" "step svc ev s = Some s'"
  shows "recorded s'"
proof (cases ev)
  case (NewData row)
  with assms show ?thesis
    by (auto simp: recorded_handleNewData)
next
  case CancelClick
  with assms show ?thesis
    by (auto simp: recorded_handleCancelAccident)
next
  case (TimerFires h)
  with assms show ?thesis
    by (auto intro: recorded_fireTimer)
next
  case (Answer tid a)
  with assms(2) obtain t where t: "map_of (tasks s) tid = Some t"
    and r: "resume svc t a (s\<lparr>tasks := filter (\<lambda>p. fst p \<noteq> tid) (tasks s)\<rparr>) = Some s'"
    by (auto simp: deliver_def split: option.splits)
  let ?s1 = "s\<lparr>tasks := filter (\<lambda>p. fst p \<noteq> tid) (tasks s)\<rparr>"
  from t have "(tid, t) \<in> set (tasks s)"
    by (rule map_of_SomeD)
  with assms(1) have "stored s (concerns t)"
    by (auto simp: recorded_def list_all_iff)
  then have st: "stored ?s1 (concerns t)"
    by (rule stored_mono) simp
  have "recorded ?s1"
    using assms(1) by (rule recorded_grow) auto
  from this st r show ?thesis
    by (rule recorded_resume)
next
  case Heartbeat
  have "recorded (heartbeatInterval s)"
    using assms(1) by (rule recorded_frame) (simp_all add: heartbeatInterval_def Let_def)
  with assms(2) Heartbeat show ?thesis
    by auto
next
  case (Elapse dt)
  have "recorded (s\<lparr>clock := clock s + int dt\<rparr>)"
    using assms(1) by (rule recorded_frame) simp_all
  with assms(2) Elapse show ?thesis
    by auto
next
  case (VehicleChange v)
  with assms show ?thesis
    by (auto simp: handleVehicleChange_def Let_def recorded_vehicle)
qed

lemma recorded_run:
  assumes "recorded s" "run svc evs s = Some s'"
  shows "recorded s'"
  using assms
proof (induction evs arbitrary: s)
  case Nil
  then show ?case by simp
next
  case (Cons ev evs)
  from Cons.prems(2) obtain s1 where s1: "step svc ev s = Some s1" "run svc evs s1 = Some s'"
    by (cases "step svc ev s") simp_all
  from Cons.prems(1) s1(1) have "recorded s1"
    by (rule recorded_step)
  then show ?case
    using s1(2) by (rule Cons.IH)
qed

lemma recorded_reachable:
  assumes "run svc evs (mount t0 sd vt d0) = Some s"
  shows "recorded s"
  using recorded_mount assms by (rule recorded_run)

lemma deliver_pending:
  assumes "map_of (tasks s) tid = Some t"
  shows "deliver svc tid a s = resume svc t a (s\<lparr>tasks := filter (\<lambda>p. fst p \<noteq> tid) (tasks s)\<rparr>)"
  using assms by (simp add: deliver_def)

lemma sendEmergencyAlerts_end_frame [simp]:
  "activeAccident (sendEmergencyAlerts_end s) = None"
  "timers (sendEmergencyAlerts_end s) =
     timers s @ [\<lparr>handle = nextHandle s, due = clock s + 5000, callback = ClearTriggered\<rparr>]"
  "alerts (sendEmergencyAlerts_end s) = alerts s"
  "accident_logs (sendEmergencyAlerts_end s) = accident_logs s"
  "detectionService (sendEmergencyAlerts_end s) = detectionService s"
  "clock (sendEmergencyAlerts_end s) = clock s"
  "isTriggered (sendEmergencyAlerts_end s) = isTriggered s"
  "vehicleType (sendEmergencyAlerts_end s) = vehicleType s"
  "prevAccel (sendEmergencyAlerts_end s) = prevAccel s"
  "tasks (sendEmergencyAlerts_end s) =
     (if activeAccident s = None then tasks s
      else tasks s @ [(nextTask s, AwaitLatestData None (vehicleType s))])"
  by (simp_all add: sendEmergencyAlerts_end_def setActiveAccident_def setTimeout_def
      fetchHistory_def suspend_def)

text \<open>
  Claim C4, as the code has it. The claim as stated fails when no settings row was loaded:
  the event below is active at 30000 ms, the timer fires, and no alert is sent and the
  stored status stays \<open>pending\<close>.
\<close>

theorem escalation_skipped_without_settings:
  "map_option activeAccident
     (run (historyService 3)
        [NewData fallen, Answer 2 (inserted ''a1''), Answer 4 (found None), Elapse 30000]
        started) = Some (Some (''a1'', 80)) \<and>
   map_option activeAccident
     (run (historyService 3)
        [NewData fallen, Answer 2 (inserted ''a1''), Answer 4 (found None), Elapse 30000,
         TimerFires 0]
        started) = Some None \<and>
   map_option alerts
     (run (historyService 3)
        [NewData fallen, Answer 2 (inserted ''a1''), Answer 4 (found None), Elapse 30000,
         TimerFires 0]
        started) = Some [] \<and>
   map_option (statusOf ''a1'')
     (run (historyService 3)
        [NewData fallen, Answer 2 (inserted ''a1''), Answer 4 (found None), Elapse 30000,
         TimerFires 0]
        started) = Some (Some pending)"
  by (simp add: example_defs)

text \<open>
  Claim C4, amended. In every state the component reaches: the answer of the insert
  stores the event as \<open>pending\<close> and makes it active; the escalation is armed 30000 ms
  ahead, once the settings query has answered with no row or once the request of the
  first alert has returned. The timer cannot fire before it is due. When it fires without
  a settings row, no alert is sent and no row changes, the active event is cleared and
  the re-arming of the latch is scheduled 5000 ms ahead. When it fires with a settings
  row, the emergency alert is requested; when that request returns, exactly one emergency
  alert is added and the update is requested; when the update returns without error, the
  stored status becomes \<open>confirmed\<close>, no further alert is added, the active event is
  cleared and the same re-arming is scheduled.
\<close>

theorem escalation_timeout:
  assumes reach: "run svc evs (mount t0 sd vt d0) = Some s"
  shows "(\<forall>tid lat lon danger acc gyro aid.
            map_of (tasks s) tid = Some (AwaitInsert lat lon danger acc gyro) \<longrightarrow>
            (\<exists>s'. step svc (Answer tid (InsertAnswer (Returned (Response (Some aid) None)))) s = Some s' \<and>
                  activeAccident s' = Some (aid, danger) \<and>
                  map_option status (accident_logs s' aid) = Some pending)) \<and>
         (\<forall>tid aid lat lon danger.
            map_of (tasks s) tid = Some (AwaitSettings aid lat lon danger) \<longrightarrow>
            (\<exists>s'. step svc (Answer tid (SettingsAnswer (Returned None))) s = Some s' \<and>
                  timers s' = timers s @
                    [\<lparr>handle = nextHandle s, due = clock s + 30000,
                      callback = EmergencyTimeout aid None lat lon danger\<rparr>])) \<and>
         (\<forall>tid aid st lat lon danger.
            map_of (tasks s) tid = Some (AwaitConfirmationPost aid st lat lon danger) \<longrightarrow>
            (\<exists>s'. step svc (Answer tid (PostAnswer (Returned ()))) s = Some s' \<and>
                  timers s' = timers s @
                    [\<lparr>handle = nextHandle s, due = clock s + 30000,
                      callback = EmergencyTimeout aid (Some st) lat lon danger\<rparr>])) \<and>
         (\<forall>t aid settings lat lon danger.
            find (\<lambda>x. handle x = handle t) (timers s) = Some t \<and>
            callback t = EmergencyTimeout aid settings lat lon danger \<longrightarrow>
            (clock s < due t \<longrightarrow> step svc (TimerFires (handle t)) s = None) \<and>
            (due t \<le> clock s \<longrightarrow>
               (\<exists>s'. step svc (TimerFires (handle t)) s = Some s' \<and>
                  alerts s' = alerts s \<and> accident_logs s' = accident_logs s \<and>
                  (case settings of
                     None \<Rightarrow>
                       activeAccident s' = None \<and>
                       timers s' = filter (\<lambda>x. handle x \<noteq> handle t) (timers s) @
                         [\<lparr>handle = nextHandle s, due = clock s + 5000, callback = ClearTriggered\<rparr>]
                   | Some st \<Rightarrow>
                       timers s' = filter (\<lambda>x. handle x \<noteq> handle t) (timers s) \<and>
                       tasks s' = tasks s @ [(nextTask s, AwaitEmergencyPost aid st lat lon danger)])))) \<and>
         (\<forall>tid aid st lat lon danger.
            map_of (tasks s) tid = Some (AwaitEmergencyPost aid st lat lon danger) \<longrightarrow>
            (\<exists>s'. step svc (Answer tid (PostAnswer (Returned ()))) s = Some s' \<and>
                  alerts s' = alerts s @ [alertBody st lat lon danger aid emergency_alert] \<and>
                  tasks s' = filter (\<lambda>p. fst p \<noteq> tid) (tasks s) @
                    [(nextTask s, AwaitConfirmedUpdate aid)] \<and>
                  timers s' = timers s)) \<and>
         (\<forall>tid aid.
            map_of (tasks s) tid = Some (AwaitConfirmedUpdate aid) \<longrightarrow>
            (\<exists>s' r. step svc (Answer tid (UpdateAnswer (Returned None))) s = Some s' \<and>
                  accident_logs s aid = Some r \<and>
                  accident_logs s' =
                    (accident_logs s)(aid \<mapsto> r\<lparr>status := confirmed, emails_sent := True\<rparr>) \<and>
                  alerts s' = alerts s \<and>
                  activeAccident s' = None \<and>
                  timers s' = timers s @
                    [\<lparr>handle = nextHandle s, due = clock s + 5000, callback = ClearTriggered\<rparr>]))"
proof -
  have rec: "recorded s"
    using reach by (rule recorded_reachable)
  have created: "\<exists>s'. step svc (Answer tid (InsertAnswer (Returned (Response (Some aid) None)))) s = Some s' \<and>
      activeAccident s' = Some (aid, danger) \<and>
      map_option status (accident_logs s' aid) = Some pending"
    if "map_of (tasks s) tid = Some (AwaitInsert lat lon danger acc gyro)"
    for tid lat lon danger acc gyro aid
    using that
    by (simp add: deliver_pending resume_def handleAccidentDetected_inserted_def
        setActiveAccident_def Let_def)
  have armed_none: "\<exists>s'. step svc (Answer tid (SettingsAnswer (Returned None))) s = Some s' \<and>
      timers s' = timers s @
        [\<lparr>handle = nextHandle s, due = clock s + 30000,
          callback = EmergencyTimeout aid None lat lon danger\<rparr>]"
    if "map_of (tasks s) tid = Some (AwaitSettings aid lat lon danger)" for tid aid lat lon danger
    using that
    by (simp add: deliver_pending resume_def handleAccidentDetected_settings_def
        handleAccidentDetected_armed_def setTimeout_def)
  have armed_some: "\<exists>s'. step svc (Answer tid (PostAnswer (Returned ()))) s = Some s' \<and>
      timers s' = timers s @
        [\<lparr>handle = nextHandle s, due = clock s + 30000,
          callback = EmergencyTimeout aid (Some st) lat lon danger\<rparr>]"
    if "map_of (tasks s) tid = Some (AwaitConfirmationPost aid st lat lon danger)"
    for tid aid st lat lon danger
    using that
    by (simp add: deliver_pending resume_def handleAccidentDetected_posted_def
        handleAccidentDetected_armed_def setTimeout_def)
  have fire: "(clock s < due t \<longrightarrow> step svc (TimerFires (handle t)) s = None) \<and>
      (due t \<le> clock s \<longrightarrow>
         (\<exists>s'. step svc (TimerFires (handle t)) s = Some s' \<and>
            alerts s' = alerts s \<and> accident_logs s' = accident_logs s \<and>
            (case settings of
               None \<Rightarrow>
                 activeAccident s' = None \<and>
                 timers s' = filter (\<lambda>x. handle x \<noteq> handle t) (timers s) @
                   [\<lparr>handle = nextHandle s, due = clock s + 5000, callback = ClearTriggered\<rparr>]
             | Some st \<Rightarrow>
                 timers s' = filter (\<lambda>x. handle x \<noteq> handle t) (timers s) \<and>
                 tasks s' = tasks s @ [(nextTask s, AwaitEmergencyPost aid st lat lon danger)])))"
    if "find (\<lambda>x. handle x = handle t) (timers s) = Some t"
      "callback t = EmergencyTimeout aid settings lat lon danger"
    for t aid settings lat lon danger
    using that
    by (cases settings) (simp_all add: fireTimer_def sendEmergencyAlerts_def Let_def)
  have sent: "\<exists>s'. step svc (Answer tid (PostAnswer (Returned ()))) s = Some s' \<and>
      alerts s' = alerts s @ [alertBody st lat lon danger aid emergency_alert] \<and>
      tasks s' = filter (\<lambda>p. fst p \<noteq> tid) (tasks s) @ [(nextTask s, AwaitConfirmedUpdate aid)] \<and>
      timers s' = timers s"
    if "map_of (tasks s) tid = Some (AwaitEmergencyPost aid st lat lon danger)"
    for tid aid st lat lon danger
    using that
    by (simp add: deliver_pending resume_def sendEmergencyAlerts_posted_def)
  have confirmed: "\<exists>s' r. step svc (Answer tid (UpdateAnswer (Returned None))) s = Some s' \<and>
      accident_logs s aid = Some r \<and>
      accident_logs s' = (accident_logs s)(aid \<mapsto> r\<lparr>status := confirmed, emails_sent := True\<rparr>) \<and>
      alerts s' = alerts s \<and>
      activeAccident s' = None \<and>
      timers s' = timers s @
        [\<lparr>handle = nextHandle s, due = clock s + 5000, callback = ClearTriggered\<rparr>]"
    if pending: "map_of (tasks s) tid = Some (AwaitConfirmedUpdate aid)" for tid aid
  proof -
    from pending have "(tid, AwaitConfirmedUpdate aid) \<in> set (tasks s)"
      by (rule map_of_SomeD)
    with rec have "stored s (concerns (AwaitConfirmedUpdate aid))"
      by (auto simp: recorded_def list_all_iff)
    then obtain r where r: "accident_logs s aid = Some r"
      by auto
    show ?thesis
      using pending r
      by (simp add: deliver_pending resume_def sendEmergencyAlerts_updated_def)
  qed
  show ?thesis
    apply (intro conjI)
    subgoal by (intro allI impI, erule created)
    subgoal by (intro allI impI, erule armed_none)
    subgoal by (intro allI impI, erule armed_some)
    subgoal by (intro allI impI, elim conjE, rule fire; assumption)
    subgoal by (intro allI impI, erule sent)
    subgoal by (intro allI impI, erule confirmed)
    done
qed

lemma run_snoc:
  "run svc (evs @ [ev]) s = (case run svc evs s of None \<Rightarrow> None | Some s1 \<Rightarrow> step svc ev s1)"
  by (induction evs arbitrary: s) (simp_all split: option.splits)

text \<open>
  The scenario of the spec, with a settings row: the timer fires at 30000, one
  emergency alert goes out, the event is confirmed and the latch is due at 35000.
\<close>

theorem escalation_timeout_witness:
  "\<exists>sc sd se sf.
     run (historyService 3)
       [NewData fallen, Answer 2 (inserted ''a1''), Answer 4 (found (Some rider)), Answer 5 posted,
        Elapse 30000] started = Some sc \<and>
     timers sc = [\<lparr>handle = 0, due = 30000,
                   callback = EmergencyTimeout ''a1'' (Some rider) 36.8 10.18 80\<rparr>] \<and>
     clock sc = 30000 \<and>
     step (historyService 3) (TimerFires 0) sc = Some sd \<and>
     timers sd = [] \<and> alerts sd = alerts sc \<and>
     map_of (tasks sd) 6 = Some (AwaitEmergencyPost ''a1'' rider 36.8 10.18 80) \<and>
     step (historyService 3) (Answer 6 posted) sd = Some se \<and>
     alerts se = alerts sc @ [alertBody rider 36.8 10.18 80 ''a1'' emergency_alert] \<and>
     map_of (tasks se) 7 = Some (AwaitConfirmedUpdate ''a1'') \<and>
     step (historyService 3) (Answer 7 updated) se = Some sf \<and>
     statusOf ''a1'' sf = Some confirmed \<and>
     activeAccident sf = None \<and>
     timers sf = [\<lparr>handle = 1, due = 35000, callback = ClearTriggered\<rparr>]"
proof -
  let ?svc = "historyService 3"
  let ?c = "[NewData fallen, Answer 2 (inserted ''a1''), Answer 4 (found (Some rider)), Answer 5 posted,
      Elapse 30000]"
  let ?t = "\<lparr>handle = 0, due = 30000,
      callback = EmergencyTimeout ''a1'' (Some rider) 36.8 10.18 80\<rparr>"
  have "\<exists>sc. run ?svc ?c started = Some sc"
    by (simp add: example_defs)
  then obtain sc where sc: "run ?svc ?c started = Some sc"
    by blast
  have pending: "timers sc = [?t]" and clock: "clock sc = 30000"
    and tasks_c: "tasks sc = [(0, AwaitVehicleType), (1, AwaitLatestData None Scooter),
      (3, AwaitLatestData (Some (''a1'', 80)) Scooter)]"
    and next_c: "nextTask sc = 6" "nextHandle sc = 1"
    using sc by (auto simp: example_defs)
  note at_c = escalation_timeout [OF sc [unfolded started_def]]
  have "find (\<lambda>x. handle x = handle ?t) (timers sc) = Some ?t \<and>
      callback ?t = EmergencyTimeout ''a1'' (Some rider) 36.8 10.18 80" "due ?t \<le> clock sc"
    by (simp_all add: pending clock)
  with at_c have "\<exists>s'. step ?svc (TimerFires (handle ?t)) sc = Some s' \<and>
      alerts s' = alerts sc \<and> accident_logs s' = accident_logs sc \<and>
      (case Some rider of
         None \<Rightarrow>
           activeAccident s' = None \<and>
           timers s' = filter (\<lambda>x. handle x \<noteq> handle ?t) (timers sc) @
             [\<lparr>handle = nextHandle sc, due = clock sc + 5000, callback = ClearTriggered\<rparr>]
       | Some st \<Rightarrow>
           timers s' = filter (\<lambda>x. handle x \<noteq> handle ?t) (timers sc) \<and>
           tasks s' = tasks sc @ [(nextTask sc, AwaitEmergencyPost ''a1'' st 36.8 10.18 80)])"
    by blast
  then obtain sd where fired: "step ?svc (TimerFires 0) sc = Some sd"
    and d: "alerts sd = alerts sc" "timers sd = []"
      "tasks sd = tasks sc @ [(6, AwaitEmergencyPost ''a1'' rider 36.8 10.18 80)]"
    by (auto simp: pending next_c)
  have waiting_d: "map_of (tasks sd) 6 = Some (AwaitEmergencyPost ''a1'' rider 36.8 10.18 80)"
    by (simp add: d tasks_c)
  have sd: "run ?svc (?c @ [TimerFires 0]) (mount 0 blank Scooter []) = Some sd"
    using sc fired unfolding run_snoc started_def by simp
  note at_d = escalation_timeout [OF sd]
  from at_d waiting_d have "\<exists>s'. step ?svc (Answer 6 (PostAnswer (Returned ()))) sd = Some s' \<and>
      alerts s' = alerts sd @ [alertBody rider 36.8 10.18 80 ''a1'' emergency_alert] \<and>
      tasks s' = filter (\<lambda>p. fst p \<noteq> 6) (tasks sd) @ [(nextTask sd, AwaitConfirmedUpdate ''a1'')] \<and>
      timers s' = timers sd"
    by blast
  moreover have "nextTask sd = 7"
    using sd by (auto simp: example_defs)
  ultimately obtain se where posted_d: "step ?svc (Answer 6 posted) sd = Some se"
    and e: "alerts se = alerts sc @ [alertBody rider 36.8 10.18 80 ''a1'' emergency_alert]"
      "tasks se = filter (\<lambda>p. fst p \<noteq> 6) (tasks sd) @ [(7, AwaitConfirmedUpdate ''a1'')]"
      "timers se = []"
    by (auto simp: posted_def d)
  have waiting_e: "map_of (tasks se) 7 = Some (AwaitConfirmedUpdate ''a1'')"
    by (simp add: e d tasks_c)
  have se: "run ?svc ((?c @ [TimerFires 0]) @ [Answer 6 posted]) (mount 0 blank Scooter []) = Some se"
    using sd posted_d unfolding run_snoc [of _ "?c @ [TimerFires 0]"] by simp
  note at_e = escalation_timeout [OF se]
  from at_e waiting_e have "\<exists>s' r. step ?svc (Answer 7 (UpdateAnswer (Returned None))) se = Some s' \<and>
      accident_logs se ''a1'' = Some r \<and>
      accident_logs s' = (accident_logs se)(''a1'' \<mapsto> r\<lparr>status := confirmed, emails_sent := True\<rparr>) \<and>
      alerts s' = alerts se \<and>
      activeAccident s' = None \<and>
      timers s' = timers se @
        [\<lparr>handle = nextHandle se, due = clock se + 5000, callback = ClearTriggered\<rparr>]"
    by blast
  moreover have "nextHandle se = 1" "clock se = 30000"
    using se by (auto simp: example_defs)
  ultimately obtain sf where updated_e: "step ?svc (Answer 7 updated) se = Some sf"
    and f: "statusOf ''a1'' sf = Some confirmed" "activeAccident sf = None"
      "timers sf = [\<lparr>handle = 1, due = 35000, callback = ClearTriggered\<rparr>]"
    by (auto simp: updated_def e statusOf_def)
  from sc pending clock fired d waiting_d posted_d e waiting_e updated_e f show ?thesis
    by blast
qed

subsection \<open>The detector's history across a timeout\<close>

text \<open>
  Claim C10, as the code has it. The claim as stated fails when the table holds a
  latest row: before the timeout the detector's history is one reading long; when
  \<^verbatim>\<open>sendEmergencyAlerts\<close> clears the active event the subscribing effect runs again, and
  the row that its \<^verbatim>\<open>fetchHistory\<close> loads goes through \<^verbatim>\<open>handleNewData\<close>: the history
  of the confirmed event's detector is two readings long.
\<close>

theorem timeout_feeds_latest_row:
  "map_option detectionService
     (run (historyService 3)
        [NewData fallen, Answer 2 (inserted ''a1''), Answer 4 (found (Some rider)), Answer 5 posted,
         Elapse 30000] started)
     = Some [(\<lparr>vx = 0.3, vy = 0, vz = 0.1\<rparr>, \<lparr>vx = 0, vy = 0, vz = 0\<rparr>)] \<and>
   map_option (statusOf ''a1'')
     (run (historyService 3)
        [NewData fallen, Answer 2 (inserted ''a1''), Answer 4 (found (Some rider)), Answer 5 posted,
         Elapse 30000, TimerFires 0, Answer 6 posted, Answer 7 updated, Answer 8 (latest fallen)]
        started)
     = Some (Some confirmed) \<and>
   map_option detectionService
     (run (historyService 3)
        [NewData fallen, Answer 2 (inserted ''a1''), Answer 4 (found (Some rider)), Answer 5 posted,
         Elapse 30000, TimerFires 0, Answer 6 posted, Answer 7 updated, Answer 8 (latest fallen)]
        started)
     = Some [(\<lparr>vx = 0.3, vy = 0, vz = 0.1\<rparr>, \<lparr>vx = 0, vy = 0, vz = 0\<rparr>),
             (\<lparr>vx = 0.51, vy = 0, vz = - 0.53\<rparr>, \<lparr>vx = 0, vy = 0, vz = 0\<rparr>)]"
  by (simp add: trace_defs)

subsection \<open>More than one pending event\<close>

text \<open>
  Claim C1 fails. \<^verbatim>\<open>handleAccidentDetected\<close> sets \<^verbatim>\<open>activeAccident\<close> two awaits
  before it arms the escalation, and the timeout path leaves the handle of a fired timer
  in \<^verbatim>\<open>accidentTimeoutRef\<close>. After \<open>race\<close> two escalations are pending, one of them
  for the cancelled \<open>a2\<close>. After \<open>overlap\<close>, at 70000 ms, the events \<open>a3\<close> and
  \<open>a4\<close> are both stored as \<open>pending\<close>, each with its escalation timer, \<open>a4\<close> being
  the active one; an emergency alert has gone out for \<open>a2\<close>.
\<close>

theorem two_pending_events:
  "map_option escalating (run (historyService 3) race started) = Some [''a2'', ''a3''] \<and>
   map_option (statusOf ''a2'') (run (historyService 3) race started) = Some (Some cancelled) \<and>
   map_option activeAccident (run (historyService 3) race started) = Some (Some (''a3'', 100)) \<and>
   map_option clock (run (historyService 3) (race @ overlap) started) = Some 70000 \<and>
   map_option escalating (run (historyService 3) (race @ overlap) started) = Some [''a3'', ''a4''] \<and>
   map_option (statusOf ''a3'') (run (historyService 3) (race @ overlap) started) = Some (Some pending) \<and>
   map_option (statusOf ''a4'') (run (historyService 3) (race @ overlap) started) = Some (Some pending) \<and>
   map_option activeAccident (run (historyService 3) (race @ overlap) started) = Some (Some (''a4'', 100)) \<and>
   map_option emergencies (run (historyService 3) (race @ overlap) started) = Some [''a1'', ''a2'']"
proof -
  define first where "first = (\<lambda>s :: (vec3 \<times> vec3) list app.
    (escalating s, statusOf ''a2'' s, activeAccident s))"
  define second where "second = (\<lambda>s :: (vec3 \<times> vec3) list app.
    (clock s, escalating s, statusOf ''a3'' s, statusOf ''a4'' s, activeAccident s, emergencies s))"
  have "map_option first (run (historyService 3) race started)
      = Some ([''a2'', ''a3''], Some cancelled, Some (''a3'', 100))"
    unfolding first_def by (simp add: trace_defs race_def)
  moreover have "map_option second (run (historyService 3) (race @ overlap) started)
      = Some (70000, [''a3'', ''a4''], Some pending, Some pending, Some (''a4'', 100), [''a1'', ''a2''])"
    unfolding second_def by (simp add: trace_defs race_def overlap_def)
  ultimately show ?thesis
    by (cases "run (historyService 3) race started";
        cases "run (historyService 3) (race @ overlap) started")
      (simp_all add: first_def second_def)
qed

subsection \<open>A cancellation that does not cancel\<close>

text \<open>
  Claim C5 fails. A click on the cancel button of the event shown, before the
  escalation is armed, changes nothing at all (\<^verbatim>\<open>accidentTimeoutRef\<close> is still
  \<^verbatim>\<open>null\<close>): in \<open>ignored\<close> the emergency alert goes out and the event is confirmed.
  In \<open>late\<close> the click comes when the escalation has fired: the event is marked
  \<open>cancelled\<close>, yet its emergency alert goes out, at 33000 ms; and with \<open>early\<close> a new
  event is active at 35000 ms, 2000 ms after that resolution.
\<close>

theorem cancelled_event_escalates:
  "map_option activeAccident
     (run (historyService 3) [NewData fallen, Answer 2 (inserted ''a1'')] started)
     = Some (Some (''a1'', 80)) \<and>
   run (historyService 3) [NewData fallen, Answer 2 (inserted ''a1''), CancelClick] started
     = run (historyService 3) [NewData fallen, Answer 2 (inserted ''a1'')] started \<and>
   map_option emergencies (run (historyService 3) ignored started) = Some [''a1''] \<and>
   map_option (statusOf ''a1'') (run (historyService 3) ignored started) = Some (Some confirmed) \<and>
   map_option (statusOf ''a1'') (run (historyService 3) (take 8 late) started) = Some (Some cancelled) \<and>
   map_option emergencies (run (historyService 3) late started) = Some [''a1''] \<and>
   map_option clock (run (historyService 3) late started) = Some 33000 \<and>
   map_option clock (run (historyService 3) (late @ early) started) = Some 35000 \<and>
   map_option activeAccident (run (historyService 3) (late @ early) started) = Some (Some (''a2'', 100))"
proof -
  define a where "a = (\<lambda>s :: (vec3 \<times> vec3) list app. (emergencies s, statusOf ''a1'' s))"
  define b where "b = (\<lambda>s :: (vec3 \<times> vec3) list app. (emergencies s, clock s))"
  define c where "c = (\<lambda>s :: (vec3 \<times> vec3) list app. (clock s, activeAccident s))"
  have shown: "map_option activeAccident
     (run (historyService 3) [NewData fallen, Answer 2 (inserted ''a1'')] started)
     = Some (Some (''a1'', 80))"
    by (simp add: trace_defs)
  have unchanged: "run (historyService 3) [NewData fallen, Answer 2 (inserted ''a1''), CancelClick] started
     = run (historyService 3) [NewData fallen, Answer 2 (inserted ''a1'')] started"
    by (simp add: trace_defs)
  have "map_option a (run (historyService 3) ignored started) = Some ([''a1''], Some confirmed)"
    unfolding a_def by (simp add: trace_defs ignored_def)
  then have sent: "map_option emergencies (run (historyService 3) ignored started) = Some [''a1'']"
    "map_option (statusOf ''a1'') (run (historyService 3) ignored started) = Some (Some confirmed)"
    by (cases "run (historyService 3) ignored started"; simp add: a_def)+
  have marked: "map_option (statusOf ''a1'') (run (historyService 3) (take 8 late) started)
      = Some (Some cancelled)"
    by (simp add: trace_defs late_def)
  have "map_option b (run (historyService 3) late started) = Some ([''a1''], 33000)"
    unfolding b_def by (simp add: trace_defs late_def)
  then have twice: "map_option emergencies (run (historyService 3) late started) = Some [''a1'']"
    "map_option clock (run (historyService 3) late started) = Some 33000"
    by (cases "run (historyService 3) late started"; simp add: b_def)+
  have "map_option c (run (historyService 3) (late @ early) started) = Some (35000, Some (''a2'', 100))"
    unfolding c_def by (simp add: trace_defs late_def early_def)
  then have again: "map_option clock (run (historyService 3) (late @ early) started) = Some 35000"
    "map_option activeAccident (run (historyService 3) (late @ early) started) = Some (Some (''a2'', 100))"
    by (cases "run (historyService 3) (late @ early) started"; simp add: c_def)+
  from shown unchanged sent marked twice again show ?thesis
    by blast
qed

subsection \<open>What changes the detector\<close>

lemma handleVehicle_detector [simp]:
  "detectionService (setVehicleTypeState v s) = detectionService s"
  by (simp add: setVehicleTypeState_def)

lemma setActiveAccident_frame [simp]:
  "detectionService (setActiveAccident v s) = detectionService s"
  "accident_logs (setActiveAccident v s) = accident_logs s"
  "activeAccident (setActiveAccident v s) = v"
  by (simp_all add: setActiveAccident_def)

lemma resume_detector:
  assumes "resume svc t a s = Some s'"
  shows "detectionService s' =
     (case (t, a) of
        (AwaitCancelledUpdate aid, UpdateAnswer (Returned err)) \<Rightarrow> reset svc (detectionService s)
      | (AwaitLatestData active vt, LatestAnswer (Returned (Some row))) \<Rightarrow> snd (fed svc row s)
      | (AwaitVehicleType, VehicleTypeAnswer (Returned (Some v))) \<Rightarrow>
          setVehicleType svc v (detectionService s)
      | _ \<Rightarrow> detectionService s)"
proof (cases t)
  case (AwaitInsert lat lon danger acc gyro)
  with assms show ?thesis
    by (cases a)
      (auto simp: resume_def handleAccidentDetected_inserted_def Let_def
        split: outcome.splits option.splits)
next
  case (AwaitSettings aid lat lon danger)
  with assms show ?thesis
    by (cases a)
      (auto simp: resume_def handleAccidentDetected_settings_def handleAccidentDetected_armed_def
        setTimeout_def split: outcome.splits option.splits)
next
  case (AwaitConfirmationPost aid st lat lon danger)
  with assms show ?thesis
    by (cases a)
      (auto simp: resume_def handleAccidentDetected_posted_def handleAccidentDetected_armed_def
        setTimeout_def split: outcome.splits)
next
  case (AwaitEmergencyPost aid st lat lon danger)
  with assms show ?thesis
    by (cases a) (auto simp: resume_def sendEmergencyAlerts_posted_def split: outcome.splits)
next
  case (AwaitConfirmedUpdate aid)
  with assms show ?thesis
    by (cases a)
      (auto simp: resume_def sendEmergencyAlerts_updated_def split: outcome.splits option.splits)
next
  case (AwaitCancelledUpdate aid)
  with assms show ?thesis
    by (cases a)
      (auto simp: resume_def handleCancelAccident_updated_def setTimeout_def Let_def
        split: outcome.splits option.splits)
next
  case (AwaitLatestData active vt)
  with assms show ?thesis
    by (cases a)
      (auto simp: resume_def fetchHistory_loaded_def Let_def split: outcome.splits option.splits)
next
  case AwaitVehicleType
  with assms show ?thesis
    by (cases a)
      (auto simp: resume_def loadVehicleType_loaded_def Let_def split: outcome.splits option.splits)
qed

text \<open>
  Claim C10, amended. The timeout path never calls \<^verbatim>\<open>reset\<close>: of all events, the
  detector is changed only by a reading (from the subscription or from
  \<^verbatim>\<open>fetchHistory\<close>), which is fed to it, by a change or load of the vehicle type, and by
  a cancellation's update returning, which resets it; the steps of
  \<^verbatim>\<open>sendEmergencyAlerts\<close> leave it as it is. The end of \<^verbatim>\<open>sendEmergencyAlerts\<close>, when
  it clears an active event, starts \<^verbatim>\<open>fetchHistory\<close> anew, whose row, if there is one,
  is fed to the detector. And with no event active and the latch clear, a reading whose
  decision qualifies triggers again: only the latch stands in between.
\<close>

theorem timeout_keeps_detector:
  "(\<forall>ev s'. step svc ev s = Some s' \<longrightarrow>
      detectionService s' =
        (case ev of
           NewData row \<Rightarrow> snd (fed svc row s)
         | VehicleChange v \<Rightarrow> setVehicleType svc v (detectionService s)
         | Answer tid a \<Rightarrow>
             (case map_of (tasks s) tid of
                None \<Rightarrow> detectionService s
              | Some t \<Rightarrow>
                  (case (t, a) of
                     (AwaitCancelledUpdate aid, UpdateAnswer (Returned err)) \<Rightarrow>
                       reset svc (detectionService s)
                   | (AwaitLatestData active vt, LatestAnswer (Returned (Some row))) \<Rightarrow>
                       snd (fed svc row s)
                   | (AwaitVehicleType, VehicleTypeAnswer (Returned (Some v))) \<Rightarrow>
                       setVehicleType svc v (detectionService s)
                   | _ \<Rightarrow> detectionService s))
         | _ \<Rightarrow> detectionService s)) \<and>
   (\<forall>tid aid err s'.
      map_of (tasks s) tid = Some (AwaitConfirmedUpdate aid) \<and> activeAccident s \<noteq> None \<and>
      step svc (Answer tid (UpdateAnswer (Returned err))) s = Some s' \<longrightarrow>
        activeAccident s' = None \<and> detectionService s' = detectionService s \<and>
        tasks s' = filter (\<lambda>p. fst p \<noteq> tid) (tasks s) @
          [(nextTask s, AwaitLatestData None (vehicleType s))]) \<and>
   (\<forall>row. activeAccident s = None \<and> \<not> isTriggered s \<and>
      fst (decision svc (vehicleType s) row s) \<longrightarrow>
        (\<exists>s'. step svc (NewData row) s = Some s' \<and> isTriggered s' \<and>
           tasks s' = tasks s @
             [(nextTask s,
               AwaitInsert (row_latitude row) (row_longitude row)
                 (snd (decision svc (vehicleType s) row s))
                 \<lparr>vx = acc_x row, vy = acc_y row, vz = acc_z row\<rparr>
                 \<lparr>vx = gyro_x row, vy = gyro_y row, vz = gyro_z row\<rparr>)]))"
proof -
  have steps: "detectionService s' =
        (case ev of
           NewData row \<Rightarrow> snd (fed svc row s)
         | VehicleChange v \<Rightarrow> setVehicleType svc v (detectionService s)
         | Answer tid a \<Rightarrow>
             (case map_of (tasks s) tid of
                None \<Rightarrow> detectionService s
              | Some t \<Rightarrow>
                  (case (t, a) of
                     (AwaitCancelledUpdate aid, UpdateAnswer (Returned err)) \<Rightarrow>
                       reset svc (detectionService s)
                   | (AwaitLatestData active vt, LatestAnswer (Returned (Some row))) \<Rightarrow>
                       snd (fed svc row s)
                   | (AwaitVehicleType, VehicleTypeAnswer (Returned (Some v))) \<Rightarrow>
                       setVehicleType svc v (detectionService s)
                   | _ \<Rightarrow> detectionService s))
         | _ \<Rightarrow> detectionService s)"
    if st: "step svc ev s = Some s'" for ev s'
  proof (cases ev)
    case (NewData row)
    with st show ?thesis
      by auto
  next
    case CancelClick
    with st show ?thesis
      by (auto simp: handleCancelAccident_def clearTimeout_def Let_def split: option.splits)
  next
    case (TimerFires h)
    with st show ?thesis
      by (auto simp: fireTimer_def Let_def sendEmergencyAlerts_def
          split: option.splits if_splits callback.splits)
  next
    case (Answer tid a)
    define rest where "rest = s\<lparr>tasks := filter (\<lambda>p. fst p \<noteq> tid) (tasks s)\<rparr>"
    from Answer st obtain t where t: "map_of (tasks s) tid = Some t"
      and r: "resume svc t a rest = Some s'"
      by (auto simp: deliver_def rest_def split: option.splits)
    have frame: "detectionService rest = detectionService s"
      "\<And>row. fed svc row rest = fed svc row s"
      by (simp_all add: rest_def fed_def smoothed_def)
    from resume_detector [OF r, unfolded frame] show ?thesis
      unfolding Answer event.case t option.case .
  next
    case Heartbeat
    with st show ?thesis
      by (auto simp: heartbeatInterval_def Let_def)
  next
    case (Elapse dt)
    with st show ?thesis
      by auto
  next
    case (VehicleChange v)
    with st show ?thesis
      by (auto simp: handleVehicleChange_def Let_def)
  qed
  have resolved: "activeAccident s' = None \<and> detectionService s' = detectionService s \<and>
        tasks s' = filter (\<lambda>p. fst p \<noteq> tid) (tasks s) @
          [(nextTask s, AwaitLatestData None (vehicleType s))]"
    if "map_of (tasks s) tid = Some (AwaitConfirmedUpdate aid)" "activeAccident s \<noteq> None"
      "step svc (Answer tid (UpdateAnswer (Returned err))) s = Some s'"
    for tid aid err s'
    using that
    by (auto simp: deliver_pending resume_def sendEmergencyAlerts_updated_def split: option.splits)
  have again: "\<exists>s'. step svc (NewData row) s = Some s' \<and> isTriggered s' \<and>
           tasks s' = tasks s @
             [(nextTask s,
               AwaitInsert (row_latitude row) (row_longitude row)
                 (snd (decision svc (vehicleType s) row s))
                 \<lparr>vx = acc_x row, vy = acc_y row, vz = acc_z row\<rparr>
                 \<lparr>vx = gyro_x row, vy = gyro_y row, vz = gyro_z row\<rparr>)]"
    if "activeAccident s = None" "\<not> isTriggered s" "fst (decision svc (vehicleType s) row s)"
    for row
    using that by (simp add: handleNewData_decision handleAccidentDetected_def)
  show ?thesis
    apply (intro conjI)
    subgoal by (intro allI impI, erule steps)
    subgoal by (intro allI impI, elim conjE, rule resolved; assumption)
    subgoal by (intro allI impI, elim conjE, rule again; assumption)
    done
qed

text \<open>
  A timeout on the example: the update's answer leaves the history as it is, the row
  loaded next extends it, and once the latch is re-armed at 35000 ms the next reading
  triggers with danger 100.
\<close>

theorem timeout_keeps_detector_witness:
  "\<exists>sa sb sc sd se.
     run (historyService 3)
       [NewData fallen, Answer 2 (inserted ''a1''), Answer 4 (found (Some rider)), Answer 5 posted,
        Elapse 30000, TimerFires 0, Answer 6 posted] started = Some sa \<and>
     map_of (tasks sa) 7 = Some (AwaitConfirmedUpdate ''a1'') \<and>
     activeAccident sa = Some (''a1'', 80) \<and>
     detectionService sa = [(\<lparr>vx = 0.3, vy = 0, vz = 0.1\<rparr>, \<lparr>vx = 0, vy = 0, vz = 0\<rparr>)] \<and>
     step (historyService 3) (Answer 7 updated) sa = Some sb \<and>
     activeAccident sb = None \<and>
     detectionService sb = detectionService sa \<and>
     map_of (tasks sb) 8 = Some (AwaitLatestData None Scooter) \<and>
     step (historyService 3) (Answer 8 (latest fallen)) sb = Some sc \<and>
     detectionService sc =
       [(\<lparr>vx = 0.3, vy = 0, vz = 0.1\<rparr>, \<lparr>vx = 0, vy = 0, vz = 0\<rparr>),
        (\<lparr>vx = 0.51, vy = 0, vz = - 0.53\<rparr>, \<lparr>vx = 0, vy = 0, vz = 0\<rparr>)] \<and>
     run (historyService 3)
       [NewData fallen, Answer 2 (inserted ''a1''), Answer 4 (found (Some rider)), Answer 5 posted,
        Elapse 30000, TimerFires 0, Answer 6 posted, Answer 7 updated, Answer 8 (latest fallen),
        Elapse 5000, TimerFires 1] started = Some sd \<and>
     clock sd = 35000 \<and>
     step (historyService 3) (NewData fallen) sd = Some se \<and>
     isTriggered se \<and>
     map_of (tasks se) 9 =
       Some (AwaitInsert 36.8 10.18 100 \<lparr>vx = 16384, vy = 0, vz = - 32768\<rparr> \<lparr>vx = 0, vy = 0, vz = 0\<rparr>)"
proof -
  let ?svc = "historyService 3"
  let ?pre = "[NewData fallen, Answer 2 (inserted ''a1''), Answer 4 (found (Some rider)), Answer 5 posted,
      Elapse 30000, TimerFires 0, Answer 6 posted]"
  let ?first = "(\<lparr>vx = 0.3, vy = 0, vz = 0.1\<rparr>, \<lparr>vx = 0, vy = 0, vz = 0\<rparr>) :: vec3 \<times> vec3"
  let ?second = "(\<lparr>vx = 0.51, vy = 0, vz = - 0.53\<rparr>, \<lparr>vx = 0, vy = 0, vz = 0\<rparr>) :: vec3 \<times> vec3"
  have "\<exists>sa. run ?svc ?pre started = Some sa \<and>
      tasks sa = [(0, AwaitVehicleType), (1, AwaitLatestData None Scooter),
        (3, AwaitLatestData (Some (''a1'', 80)) Scooter), (7, AwaitConfirmedUpdate ''a1'')] \<and>
      activeAccident sa = Some (''a1'', 80) \<and> detectionService sa = [?first] \<and>
      nextTask sa = 8 \<and> vehicleType sa = Scooter"
    by (simp add: trace_defs)
  then obtain sa where sa: "run ?svc ?pre started = Some sa"
    and a: "tasks sa = [(0, AwaitVehicleType), (1, AwaitLatestData None Scooter),
        (3, AwaitLatestData (Some (''a1'', 80)) Scooter), (7, AwaitConfirmedUpdate ''a1'')]"
      "activeAccident sa = Some (''a1'', 80)" "detectionService sa = [?first]"
      "nextTask sa = 8" "vehicleType sa = Scooter"
    by blast
  have "\<exists>sb. run ?svc (?pre @ [Answer 7 updated]) started = Some sb \<and>
      prevAccel sb = \<lparr>vx = 0.3, vy = 0, vz = 0.1\<rparr>"
    by (simp add: trace_defs)
  then obtain sb where runb: "run ?svc (?pre @ [Answer 7 updated]) started = Some sb"
    and prev: "prevAccel sb = \<lparr>vx = 0.3, vy = 0, vz = 0.1\<rparr>"
    by blast
  from sa runb have ab: "step ?svc (Answer 7 (UpdateAnswer (Returned None))) sa = Some sb"
    unfolding run_snoc by (simp add: updated_def)
  have waiting: "map_of (tasks sa) 7 = Some (AwaitConfirmedUpdate ''a1'')"
    by (simp add: a)
  from timeout_keeps_detector [of ?svc sa] waiting ab a(2)
  have "activeAccident sb = None \<and> detectionService sb = detectionService sa \<and>
      tasks sb = filter (\<lambda>p. fst p \<noteq> 7) (tasks sa) @
        [(nextTask sa, AwaitLatestData None (vehicleType sa))]"
    by blast
  then have b: "activeAccident sb = None" "detectionService sb = detectionService sa"
    "map_of (tasks sb) 8 = Some (AwaitLatestData None Scooter)"
    by (simp_all add: a)
  have "\<exists>sc. run ?svc ((?pre @ [Answer 7 updated]) @ [Answer 8 (latest fallen)]) started = Some sc"
    by (simp add: trace_defs)
  then obtain sc
    where "run ?svc ((?pre @ [Answer 7 updated]) @ [Answer 8 (latest fallen)]) started = Some sc"
    by blast
  then have "(case run ?svc (?pre @ [Answer 7 updated]) started of None \<Rightarrow> None
      | Some s1 \<Rightarrow> step ?svc (Answer 8 (latest fallen)) s1) = Some sc"
    by (simp only: run_snoc)
  then have bc: "step ?svc (Answer 8 (LatestAnswer (Returned (Some fallen)))) sb = Some sc"
    by (simp only: runb option.case latest_def)
  from timeout_keeps_detector [of ?svc sb] bc
  have "detectionService sc =
      (case Answer 8 (LatestAnswer (Returned (Some fallen))) of
         NewData row \<Rightarrow> snd (fed ?svc row sb)
       | VehicleChange v \<Rightarrow> setVehicleType ?svc v (detectionService sb)
       | Answer tid a \<Rightarrow>
           (case map_of (tasks sb) tid of
              None \<Rightarrow> detectionService sb
            | Some t \<Rightarrow>
                (case (t, a) of
                   (AwaitCancelledUpdate aid, UpdateAnswer (Returned err)) \<Rightarrow>
                     reset ?svc (detectionService sb)
                 | (AwaitLatestData active vt, LatestAnswer (Returned (Some row))) \<Rightarrow>
                     snd (fed ?svc row sb)
                 | (AwaitVehicleType, VehicleTypeAnswer (Returned (Some v))) \<Rightarrow>
                     setVehicleType ?svc v (detectionService sb)
                 | _ \<Rightarrow> detectionService sb))
       | _ \<Rightarrow> detectionService sb)"
    by blast
  then have c: "detectionService sc = [?first, ?second]"
    by (simp add: b a prev fed_def smoothed_def historyService_def lowPassFilter_def fallen_def)
  have "\<exists>sd. run ?svc
      [NewData fallen, Answer 2 (inserted ''a1''), Answer 4 (found (Some rider)), Answer 5 posted,
       Elapse 30000, TimerFires 0, Answer 6 posted, Answer 7 updated, Answer 8 (latest fallen),
       Elapse 5000, TimerFires 1] started = Some sd \<and>
      clock sd = 35000 \<and> activeAccident sd = None \<and> \<not> isTriggered sd \<and>
      vehicleType sd = Scooter \<and> prevAccel sd = \<lparr>vx = 0.51, vy = 0, vz = - 0.53\<rparr> \<and>
      detectionService sd = [?first, ?second] \<and> nextTask sd = 9 \<and>
      tasks sd = [(0, AwaitVehicleType), (1, AwaitLatestData None Scooter),
        (3, AwaitLatestData (Some (''a1'', 80)) Scooter)]"
    by (simp add: trace_defs)
  then obtain sd where sd: "run ?svc
      [NewData fallen, Answer 2 (inserted ''a1''), Answer 4 (found (Some rider)), Answer 5 posted,
       Elapse 30000, TimerFires 0, Answer 6 posted, Answer 7 updated, Answer 8 (latest fallen),
       Elapse 5000, TimerFires 1] started = Some sd"
    and d: "clock sd = 35000" "activeAccident sd = None" "\<not> isTriggered sd"
      "vehicleType sd = Scooter" "prevAccel sd = \<lparr>vx = 0.51, vy = 0, vz = - 0.53\<rparr>"
      "detectionService sd = [?first, ?second]" "nextTask sd = 9"
      "tasks sd = [(0, AwaitVehicleType), (1, AwaitLatestData None Scooter),
        (3, AwaitLatestData (Some (''a1'', 80)) Scooter)]"
    by blast
  have residual: "decision ?svc (vehicleType sd) fallen sd = (True, 100)"
    by (simp add: d decision_def fed_def smoothed_def vehicleOverride_def historyService_def
        lowPassFilter_def fallen_def)
  then have "fst (decision ?svc (vehicleType sd) fallen sd)"
    by simp
  with timeout_keeps_detector [of ?svc sd] d(2,3)
  have "\<exists>s'. step ?svc (NewData fallen) sd = Some s' \<and> isTriggered s' \<and>
      tasks s' = tasks sd @
        [(nextTask sd,
          AwaitInsert (row_latitude fallen) (row_longitude fallen)
            (snd (decision ?svc (vehicleType sd) fallen sd))
            \<lparr>vx = acc_x fallen, vy = acc_y fallen, vz = acc_z fallen\<rparr>
            \<lparr>vx = gyro_x fallen, vy = gyro_y fallen, vz = gyro_z fallen\<rparr>)]"
    by blast
  then obtain se where de: "step ?svc (NewData fallen) sd = Some se" "isTriggered se"
    and "tasks se = tasks sd @
        [(nextTask sd,
          AwaitInsert (row_latitude fallen) (row_longitude fallen)
            (snd (decision ?svc (vehicleType sd) fallen sd))
            \<lparr>vx = acc_x fallen, vy = acc_y fallen, vz = acc_z fallen\<rparr>
            \<lparr>vx = gyro_x fallen, vy = gyro_y fallen, vz = gyro_z fallen\<rparr>)]"
    by blast
  then have e: "map_of (tasks se) 9 =
      Some (AwaitInsert 36.8 10.18 100 \<lparr>vx = 16384, vy = 0, vz = - 32768\<rparr> \<lparr>vx = 0, vy = 0, vz = 0\<rparr>)"
    unfolding residual by (simp add: d fallen_def)
  from sa waiting a(2,3) ab b bc c sd d(1) de e show ?thesis
    unfolding updated_def latest_def by blast
qed

end
